theory Spec2Isabelle
  imports Main "HOL-Library.Word"
begin

unbundle bit_operations_syntax

section \<open>Binary layout of dir2exe archives\<close>

text \<open>
  The file \<^verbatim>\<open>tools/dir2exe.c\<close> holds two programs: the packer, which appends a
  directory tree and a main executable to a copy of \<^verbatim>\<open>loader.exe\<close>, and the loader,
  which unpacks its own file into a temporary directory, starts the main executable
  and removes the directory again. Files are sequences of bytes; C strings are
  sequences of \<^typ>\<open>char\<close> that end at the first NUL.
\<close>

type_synonym byte = "8 word"

text \<open>
  Modelled from the spec: \<^verbatim>\<open>MAX_PATH\<close> is declared by \<^verbatim>\<open>windows.h\<close>, which is not
  part of the repository; the spec calls it an implementation-fixed constant matching
  the host's conventional maximum path length, which on Windows is 260.
\<close>

definition MAX_PATH :: nat where
  "MAX_PATH = 260"

definition MAGIC_BYTES :: string where
  "MAGIC_BYTES = ''DIR2EXE''"

abbreviation NUL :: char where
  "NUL \<equiv> CHR 0x00"

abbreviation BACKSLASH :: char where
  "BACKSLASH \<equiv> CHR 0x5C"

abbreviation SLASH :: char where
  "SLASH \<equiv> CHR 0x2F"

abbreviation NEWLINE :: char where
  "NEWLINE \<equiv> CHR 0x0A"

record ArchiveFooter =
  manifest_offset :: "64 word"
  magic :: "char list"

record ManifestEntry =
  offset :: "64 word"
  size_bytes :: "64 word"
  is_executable :: "8 word"
  relative_path :: "char list"

subsection \<open>C strings and character arrays\<close>

text \<open>The string a character array holds: everything before the first NUL.\<close>

definition c_str :: "char list \<Rightarrow> string" where
  "c_str arr = takeWhile (\<lambda>c. c \<noteq> NUL) arr"

text \<open>
  \<^verbatim>\<open>strcpy(dst, src)\<close> writes the characters of \<open>src\<close> and the terminating NUL over
  the start of \<open>dst\<close> and leaves the rest of \<open>dst\<close> as it was. The caller has to
  make sure that \<open>length src < length dst\<close>.
\<close>

definition strcpy :: "char list \<Rightarrow> string \<Rightarrow> char list" where
  "strcpy dst src = src @ [NUL] @ drop (length src + 1) dst"

text \<open>
  \<^verbatim>\<open>snprintf(buf, MAX_PATH, ...)\<close>: the formatted text, cut after
  \<open>MAX_PATH - 1\<close> characters.
\<close>

definition snprintf :: "string \<Rightarrow> string" where
  "snprintf formatted = take (MAX_PATH - 1) formatted"

text \<open>
  \<^verbatim>\<open>strrchr(s, '\\') ? strrchr(s, '\\') + 1 : s\<close>: what follows the last backslash,
  or all of \<open>s\<close> when it has none.
\<close>

definition after_last_backslash :: "string \<Rightarrow> string" where
  "after_last_backslash s =
     (if BACKSLASH \<in> set s then rev (takeWhile (\<lambda>c. c \<noteq> BACKSLASH) (rev s)) else s)"

subsection \<open>Serialisation\<close>

definition byte_of_char :: "char \<Rightarrow> byte" where
  "byte_of_char c = of_char c"

definition char_of_byte :: "byte \<Rightarrow> char" where
  "char_of_byte b = char_of (unat b)"

text \<open>A \<^verbatim>\<open>uint64_t\<close> in memory and in the file: eight bytes, least significant first.\<close>

definition le64 :: "64 word \<Rightarrow> byte list" where
  "le64 w = map (\<lambda>i. ucast (drop_bit (8 * i) w)) [0..<8]"

definition de64 :: "byte list \<Rightarrow> 64 word" where
  "de64 bs = foldr (\<lambda>b acc. ucast b OR push_bit 8 acc) (take 8 bs) 0"

text \<open>
  Both structures are packed (\<^verbatim>\<open>#pragma pack(push, 1)\<close>), so \<^verbatim>\<open>fwrite\<close> of a structure
  writes its fields one after the other: 16 bytes for the footer,
  \<open>17 + MAX_PATH\<close> bytes for a manifest entry.
\<close>

definition sizeof_ArchiveFooter :: nat where
  "sizeof_ArchiveFooter = 16"

definition sizeof_ManifestEntry :: nat where
  "sizeof_ManifestEntry = 17 + MAX_PATH"

definition footer_bytes :: "ArchiveFooter \<Rightarrow> byte list" where
  "footer_bytes f = le64 (manifest_offset f) @ map byte_of_char (magic f)"

definition footer_of_bytes :: "byte list \<Rightarrow> ArchiveFooter" where
  "footer_of_bytes bs =
     \<lparr> manifest_offset = de64 (take 8 bs),
       magic = map char_of_byte (take 8 (drop 8 bs)) \<rparr>"

definition entry_bytes :: "ManifestEntry \<Rightarrow> byte list" where
  "entry_bytes e =
     le64 (offset e) @ le64 (size_bytes e) @ [is_executable e] @
     map byte_of_char (relative_path e)"

definition entry_of_bytes :: "byte list \<Rightarrow> ManifestEntry" where
  "entry_of_bytes bs =
     \<lparr> offset = de64 (take 8 bs),
       size_bytes = de64 (take 8 (drop 8 bs)),
       is_executable = bs ! 16,
       relative_path = map char_of_byte (take MAX_PATH (drop 17 bs)) \<rparr>"

section \<open>The packer\<close>

text \<open>
  What the packer asks of the operating system. The packer creates its output file
  before it reads anything, so the answers are those of a file system in which the
  output file exists.
  \<^item> \<open>p_files path\<close>: the bytes of the regular file at \<open>path\<close>, \<open>None\<close> when
    there is none; asked only for a file other than the output file;
  \<^item> \<open>p_locked path\<close>: whether the file at \<open>path\<close> is kept from being opened for
    reading (a sharing violation, a missing permission);
  \<^item> \<open>p_fopen_wb path\<close>: whether \<^verbatim>\<open>fopen(path, "wb")\<close> succeeds;
  \<^item> \<open>p_same_file path out\<close>: whether \<open>path\<close> is another name of the file that
    \<^verbatim>\<open>fopen(out, "wb")\<close> has created (a different spelling, a link);
  \<^item> \<open>p_find_files pattern\<close>: the entries that \<^verbatim>\<open>FindFirstFileA\<close> and \<^verbatim>\<open>FindNextFileA\<close>
    list for a search pattern, each with its \<^verbatim>\<open>cFileName\<close> and whether
    \<^verbatim>\<open>FILE_ATTRIBUTE_DIRECTORY\<close> is set; \<open>None\<close> for \<^verbatim>\<open>INVALID_HANDLE_VALUE\<close>;
  \<^item> \<open>p_malloc_node k i\<close>: byte \<open>i\<close> of the entry of a new \<^verbatim>\<open>ManifestNode\<close> when
    \<open>k\<close> nodes are already in the list (\<^verbatim>\<open>malloc\<close> does not clear the memory);
  \<^item> \<open>p_stack_entry i\<close>: byte \<open>i\<close> of the automatic variable \<^verbatim>\<open>loader_entry\<close>
    before anything is assigned to it.
\<close>

record packer_env =
  p_files :: "string \<Rightarrow> byte list option"
  p_locked :: "string \<Rightarrow> bool"
  p_fopen_wb :: "string \<Rightarrow> bool"
  p_same_file :: "string \<Rightarrow> string \<Rightarrow> bool"
  p_find_files :: "string \<Rightarrow> (string \<times> bool) list option"
  p_malloc_node :: "nat \<Rightarrow> nat \<Rightarrow> byte"
  p_stack_entry :: "nat \<Rightarrow> byte"

text \<open>
  \<^verbatim>\<open>fopen(path, "rb")\<close> for a file other than the output file: the content of the
  file opened, \<open>None\<close> for a null pointer.
\<close>

definition fopen_rb :: "packer_env \<Rightarrow> string \<Rightarrow> byte list option" where
  "fopen_rb env path = (if p_locked env path then None else p_files env path)"

text \<open>
  Two names that differ only in repeated backslashes behind their first character
  name the same file: the packer itself puts two backslashes between the packed
  directory and a name at its top level.
\<close>

fun squeeze :: "string \<Rightarrow> string" where
  "squeeze (a # b # cs) =
     (if a = BACKSLASH \<and> b = BACKSLASH then squeeze (b # cs) else a # squeeze (b # cs))"
| "squeeze [a] = [a]"
| "squeeze [] = []"

definition same_name :: "string \<Rightarrow> string \<Rightarrow> bool" where
  "same_name a b \<longleftrightarrow>
     (case a of [] \<Rightarrow> [] | c # cs \<Rightarrow> c # squeeze cs) =
     (case b of [] \<Rightarrow> [] | c # cs \<Rightarrow> c # squeeze cs)"

text \<open>
  The stream \<^verbatim>\<open>f_in\<close> reads a file of its own, which keeps its content, or the very
  file that \<^verbatim>\<open>f_archive\<close> writes, which holds whatever has been written so far.
  \<open>reads_output\<close> says that \<^verbatim>\<open>fopen(file_path, "rb")\<close> opens the latter; the stream
  \<^verbatim>\<open>f_archive\<close> is known by the name it was opened under.
\<close>

datatype in_file = Apart "byte list" | Output

definition reads_output :: "packer_env \<Rightarrow> string \<Rightarrow> string \<Rightarrow> bool" where
  "reads_output env f_archive file_path \<longleftrightarrow>
     \<not> p_locked env file_path \<and>
     (same_name file_path f_archive \<or> p_same_file env file_path f_archive)"

definition fopen_in :: "packer_env \<Rightarrow> string \<Rightarrow> string \<Rightarrow> in_file option" where
  "fopen_in env f_archive file_path =
     (if reads_output env f_archive file_path then Some Output
      else map_option Apart (fopen_rb env file_path))"

text \<open>The entry that uninitialised memory holds.\<close>

definition entry_in_memory :: "(nat \<Rightarrow> byte) \<Rightarrow> ManifestEntry" where
  "entry_in_memory mem = entry_of_bytes (map mem [0..<sizeof_ManifestEntry])"

text \<open>
  The packer's state: the bytes written to the output file so far, the linked list
  of manifest nodes from its head, and the lines printed.
\<close>

record pack_state =
  archive :: "byte list"
  head :: "ManifestEntry list"
  console :: "string list"

text \<open>
  \<^verbatim>\<open>ftell\<close> returns a \<^verbatim>\<open>long\<close>, which has 32 bits on Windows: a position that does
  not fit is reported as \<open>-1\<close>, and the assignment to a \<^verbatim>\<open>uint64_t\<close> sign-extends it.
\<close>

definition ftell :: "nat \<Rightarrow> 64 word" where
  "ftell pos = (if pos < 2 ^ 31 then of_nat pos else - 1)"

definition CHUNK :: nat where
  "CHUNK = 1024 * 1024"

text \<open>
  The copy loop of \<^verbatim>\<open>append_file_to_archive\<close>: \<open>pos\<close> is the position of \<^verbatim>\<open>f_in\<close> and
  \<open>out\<close> what the output file holds. \<^verbatim>\<open>fread\<close> takes up to one chunk of what the
  file read has from \<open>pos\<close> on, \<^verbatim>\<open>fwrite\<close> appends it to the output, and the loop ends
  when \<^verbatim>\<open>fread\<close> returns 0. When \<^verbatim>\<open>f_in\<close> reads the output file, every chunk
  written is there to be read in the next round. The result is \<open>None\<close> when the loop
  does not end.
\<close>

partial_function (option) copy_chunks ::
  "in_file \<Rightarrow> nat \<Rightarrow> byte list \<Rightarrow> byte list option" where
  "copy_chunks f_in pos out =
     (let file = (case f_in of Apart content \<Rightarrow> content | Output \<Rightarrow> out);
          bytes_read = min CHUNK (length file - pos)
      in if bytes_read > 0
         then copy_chunks f_in (pos + bytes_read) (out @ take bytes_read (drop pos file))
         else Some out)"

text \<open>
  \<^verbatim>\<open>append_file_to_archive\<close>: the entry as the function leaves it and the new state,
  \<open>None\<close> when the copy loop does not end. \<^verbatim>\<open>entry->size\<close> is the length that
  the file read has when it is opened.
\<close>

definition append_file_to_archive ::
  "packer_env \<Rightarrow> string \<Rightarrow> string \<Rightarrow> ManifestEntry \<Rightarrow> pack_state \<Rightarrow>
   (ManifestEntry \<times> pack_state) option" where
  "append_file_to_archive env f_archive file_path entry st =
     (case fopen_in env f_archive file_path of
        None \<Rightarrow>
          Some (entry\<lparr>size_bytes := 0\<rparr>,
                st\<lparr>console := console st @
                   [''Warning: Could not open file '' @ file_path @ [NEWLINE]]\<rparr>)
      | Some f_in \<Rightarrow>
          (case copy_chunks f_in 0 (archive st) of
             None \<Rightarrow> None
           | Some out \<Rightarrow>
               Some (entry\<lparr>offset := ftell (length (archive st)),
                           size_bytes :=
                             ftell (length (case f_in of Apart content \<Rightarrow> content
                                            | Output \<Rightarrow> archive st))\<rparr>,
                     st\<lparr>archive := out\<rparr>)))"

text \<open>
  The \<^verbatim>\<open>else\<close> branch of \<^verbatim>\<open>walk_directory\<close>, for an entry that is not a directory:
  a new node goes to the head of the list, gets its path and flag, and the file is
  appended.
\<close>

definition pack_file ::
  "packer_env \<Rightarrow> string \<Rightarrow> string \<times> string \<Rightarrow> pack_state \<Rightarrow> pack_state option" where
  "pack_file env f_archive rf st =
     (let relative = fst rf; full_path = snd rf;
          st1 = st\<lparr>console := console st @ [''Packing: '' @ relative @ [NEWLINE]]\<rparr>;
          new_node = entry_in_memory (p_malloc_node env (length (head st)));
          new_node = new_node\<lparr>relative_path := strcpy (relative_path new_node) relative\<rparr>;
          new_node = new_node\<lparr>is_executable := 0\<rparr>
      in case append_file_to_archive env f_archive full_path new_node st1 of
           None \<Rightarrow> None
         | Some (entry, st2) \<Rightarrow> Some (st2\<lparr>head := entry # head st\<rparr>))"

text \<open>
  How a call of \<^verbatim>\<open>walk_directory\<close> ends: it returns, or the recursion goes deeper
  than the stack has room for, or a copy loop in it does not end.
\<close>

datatype 'a run = Returns 'a | StackOverflow | NeverReturns

text \<open>
  \<^verbatim>\<open>walk_directory\<close> calls itself for every subdirectory. The second argument of the
  model is the number of nested calls the stack still has room for. \<open>walk_entries\<close>
  is the \<^verbatim>\<open>do ... while (FindNextFileA(...))\<close> loop over the entries found.
\<close>

fun walk_directory ::
    "packer_env \<Rightarrow> nat \<Rightarrow> string \<Rightarrow> string \<Rightarrow> string \<Rightarrow> pack_state \<Rightarrow> pack_state run"
  and walk_entries ::
    "packer_env \<Rightarrow> nat \<Rightarrow> string \<Rightarrow> string \<Rightarrow> string \<Rightarrow> (string \<times> bool) list \<Rightarrow>
     pack_state \<Rightarrow> pack_state run"
where
  "walk_directory env 0 f_archive base_path current_path st = StackOverflow"
| "walk_directory env (Suc depth) f_archive base_path current_path st =
     (case p_find_files env
             (snprintf (base_path @ [BACKSLASH] @ current_path @ [BACKSLASH] @ ''*'')) of
        None \<Rightarrow> Returns st
      | Some found \<Rightarrow> walk_entries env depth f_archive base_path current_path found st)"
| "walk_entries env depth f_archive base_path current_path [] st = Returns st"
| "walk_entries env depth f_archive base_path current_path ((cFileName, is_dir) # others) st =
     (if cFileName \<noteq> ''.'' \<and> cFileName \<noteq> ''..'' then
        let full_path =
              snprintf (base_path @ [BACKSLASH] @ current_path @ [BACKSLASH] @ cFileName);
            relative =
              snprintf (current_path @ (if length current_path > 0 then [BACKSLASH] else [])
                        @ cFileName)
        in if is_dir then
             (case walk_directory env depth f_archive base_path relative st of
                Returns st' \<Rightarrow>
                  walk_entries env depth f_archive base_path current_path others st'
              | StackOverflow \<Rightarrow> StackOverflow
              | NeverReturns \<Rightarrow> NeverReturns)
           else
             (case pack_file env f_archive (relative, full_path) st of
                None \<Rightarrow> NeverReturns
              | Some st' \<Rightarrow>
                  walk_entries env depth f_archive base_path current_path others st')
      else walk_entries env depth f_archive base_path current_path others st)"

text \<open>
  How a run of the packer ends: with an exit code, the content of the output file
  (\<open>None\<close> when the packer did not create it) and the lines printed; or, when
  \<^verbatim>\<open>strcpy\<close> is given a name that does not fit its buffer or the recursion exhausts
  the stack, in a way the C source does not determine; or not at all, when a copy
  loop does not end.
\<close>

datatype packer_outcome =
    PExit int "byte list option" "string list"
  | PUndefined
  | PNeverReturns

text \<open>
  Step 3 of \<^verbatim>\<open>main\<close>: the node of the main executable goes to the head of the list,
  with the part of \<open>main_exe\<close> after its last backslash as path; then the file is
  appended.
\<close>

definition pack_main_exe ::
  "packer_env \<Rightarrow> string \<Rightarrow> string \<Rightarrow> pack_state \<Rightarrow> pack_state option" where
  "pack_main_exe env f_archive main_exe st =
     (let st1 = st\<lparr>console := console st @
                  [''Packing main executable: '' @ main_exe @ [NEWLINE]]\<rparr>;
          exe_node = entry_in_memory (p_malloc_node env (length (head st)));
          exe_node = exe_node\<lparr>relative_path :=
                       strcpy (relative_path exe_node) (after_last_backslash main_exe)\<rparr>;
          exe_node = exe_node\<lparr>is_executable := 1\<rparr>
      in case append_file_to_archive env f_archive main_exe exe_node st1 of
           None \<Rightarrow> None
         | Some (entry, st2) \<Rightarrow> Some (st2\<lparr>head := entry # head st\<rparr>))"

text \<open>Steps 4 and 5: the entry count, the entries from the head of the list, the footer.\<close>

definition write_manifest_and_footer :: "pack_state \<Rightarrow> byte list" where
  "write_manifest_and_footer st =
     (let manifest_offset = ftell (length (archive st));
          entry_count = (of_nat (length (head st)) :: 64 word);
          footer = \<lparr> manifest_offset = manifest_offset,
                     magic = strcpy (replicate 8 NUL) MAGIC_BYTES \<rparr>
      in archive st @ le64 entry_count @ concat (map entry_bytes (head st)) @
         footer_bytes footer)"

text \<open>
  \<^verbatim>\<open>main\<close>. The output file is created, and emptied if it was there, before
  anything is read.
\<close>

definition packer :: "packer_env \<Rightarrow> nat \<Rightarrow> string list \<Rightarrow> packer_outcome" where
  "packer env stack argv =
     (if length argv \<noteq> 4 then
        PExit 1 None
          [''Usage: packer.exe <directory_to_pack> <main_executable> <output_exe>'' @ [NEWLINE]]
      else
        let pack_dir = argv ! 1; main_exe = argv ! 2; out_exe = argv ! 3 in
        if \<not> p_fopen_wb env out_exe then
          PExit 1 None [''Error: Could not create output file '' @ out_exe @ [NEWLINE]]
        else
          let st0 = \<lparr> archive = [], head = [],
                      console = [''Writing loader stub...'' @ [NEWLINE]] \<rparr>
          in
          case append_file_to_archive env out_exe ''loader.exe''
                 (entry_in_memory (p_stack_entry env)) st0 of
            None \<Rightarrow> PNeverReturns
          | Some (loader_entry, st1) \<Rightarrow>
              if size_bytes loader_entry = 0 then
                PExit 1 (Some (archive st1))
                  (console st1 @
                   [''Error: loader.exe not found or is empty. Compile it first.'' @ [NEWLINE]])
              else
                (case walk_directory env stack out_exe pack_dir [] st1 of
                   StackOverflow \<Rightarrow> PUndefined
                 | NeverReturns \<Rightarrow> PNeverReturns
                 | Returns st2 \<Rightarrow>
                     if length (after_last_backslash main_exe) \<ge> MAX_PATH then PUndefined
                     else
                       (case pack_main_exe env out_exe main_exe st2 of
                          None \<Rightarrow> PNeverReturns
                        | Some st3 \<Rightarrow>
                            PExit 0 (Some (write_manifest_and_footer st3))
                              (console st3 @
                               [[NEWLINE] @ ''Successfully created '' @ out_exe @
                                [NEWLINE]]))))"

section \<open>The loader\<close>

text \<open>
  The calls by which the loader changes the file system or starts a process, in the
  order they are made. \<open>WriteFile path bytes\<close> stands for a file opened with
  \<^verbatim>\<open>fopen(path, "wb")\<close>, the bytes written to it and \<^verbatim>\<open>fclose\<close>;
  \<open>GetTempFileNameA name\<close> for the empty file that call creates under the name it
  returns; \<open>CreateProcessA application command_line directory\<close> for the attempt to
  start a child.
\<close>

datatype sys_call =
    GetTempFileNameA string
  | DeleteFileA string
  | CreateDirectoryA string
  | WriteFile string "byte list"
  | CreateProcessA string string string
  | RemoveDirectoryA string

text \<open>
  What becomes of the child: \<^verbatim>\<open>CreateProcessA\<close> fails, or the child runs and exits
  with a code, or it never exits and \<^verbatim>\<open>WaitForSingleObject(..., INFINITE)\<close> never
  returns.
\<close>

datatype child_outcome = StartFailed | Exited "32 word" | NeverExits

text \<open>
  What the loader asks of the operating system. Answers that depend on the state of
  the file system take the calls made so far as an argument.
  \<^item> \<open>l_self\<close>: the content of the running executable's own file, \<open>None\<close> when
    \<^verbatim>\<open>fopen(self_path, "rb")\<close> fails;
  \<^item> \<open>l_temp_dir\<close>: the name that \<^verbatim>\<open>GetTempPathA\<close> and \<^verbatim>\<open>GetTempFileNameA\<close> come up with;
  \<^item> \<open>l_cmd_line\<close>: what \<^verbatim>\<open>GetCommandLineA\<close> returns;
  \<^item> \<open>l_fopen_wb calls path\<close>: whether \<^verbatim>\<open>fopen(path, "wb")\<close> succeeds;
  \<^item> \<open>l_create_process calls application command_line directory\<close>: the fate of the
    child;
  \<^item> \<open>l_find_files calls pattern\<close>: the entries listed for a search pattern, as for
    the packer;
  \<^item> \<open>l_remove_directory calls path\<close>: the result of \<^verbatim>\<open>RemoveDirectoryA\<close>;
  \<^item> \<open>l_malloc n\<close>: whether \<^verbatim>\<open>malloc\<close> finds \<open>n\<close> bytes for the manifest (the 1 MiB
    transfer buffer is taken to be granted);
  \<^item> \<open>l_stack_footer\<close>, \<open>l_stack_entry_count\<close>, \<open>l_heap_manifest\<close>, \<open>l_heap_buffer\<close>:
    the bytes that the variables \<^verbatim>\<open>footer\<close> and \<^verbatim>\<open>entry_count\<close> and the blocks
    \<^verbatim>\<open>manifest\<close> and \<^verbatim>\<open>buffer\<close> hold before anything is read into them.
\<close>

record loader_env =
  l_self :: "byte list option"
  l_temp_dir :: string
  l_cmd_line :: string
  l_fopen_wb :: "sys_call list \<Rightarrow> string \<Rightarrow> bool"
  l_create_process :: "sys_call list \<Rightarrow> string \<Rightarrow> string \<Rightarrow> string \<Rightarrow> child_outcome"
  l_find_files :: "sys_call list \<Rightarrow> string \<Rightarrow> (string \<times> bool) list option"
  l_remove_directory :: "sys_call list \<Rightarrow> string \<Rightarrow> bool"
  l_malloc :: "nat \<Rightarrow> bool"
  l_stack_footer :: "nat \<Rightarrow> byte"
  l_stack_entry_count :: "nat \<Rightarrow> byte"
  l_heap_manifest :: "nat \<Rightarrow> byte"
  l_heap_buffer :: "nat \<Rightarrow> byte"

subsection \<open>Reading the own file\<close>

text \<open>
  \<^verbatim>\<open>fread\<close> of \<open>n\<close> bytes at position \<open>pos\<close> into memory that holds \<open>mem\<close>: the bytes
  the file still has from there on replace the start of the memory, the rest stays.
  The result is the new content of the \<open>n\<close> bytes and the new position.
\<close>

definition fread :: "byte list \<Rightarrow> nat \<Rightarrow> nat \<Rightarrow> (nat \<Rightarrow> byte) \<Rightarrow> byte list \<times> nat" where
  "fread file pos n mem =
     (let got = take n (drop pos file)
      in (got @ map mem [length got..<n], pos + length got))"

text \<open>
  \<^verbatim>\<open>fseek(f, -sizeof(ArchiveFooter), SEEK_END)\<close>: fails, leaving the position where it
  is, when the file has fewer than 16 bytes.
\<close>

definition fseek_end :: "nat \<Rightarrow> nat \<Rightarrow> nat" where
  "fseek_end file_length pos =
     (if file_length < sizeof_ArchiveFooter then pos else file_length - sizeof_ArchiveFooter)"

text \<open>
  \<^verbatim>\<open>fseek(f, offset, SEEK_SET)\<close> with a \<^verbatim>\<open>uint64_t\<close> offset: the parameter is a
  \<^verbatim>\<open>long\<close> of 32 bits, so the offset is cut to its low 32 bits and read as signed;
  a negative value makes the call fail and the position stay.
\<close>

definition fseek_set :: "nat \<Rightarrow> 64 word \<Rightarrow> nat" where
  "fseek_set pos off =
     (let l = sint (ucast off :: 32 word) in if l < 0 then pos else nat l)"

text \<open>Step 1: the footer and the position after reading it.\<close>

definition read_footer :: "loader_env \<Rightarrow> byte list \<Rightarrow> ArchiveFooter \<times> nat" where
  "read_footer env file =
     (let pos = fseek_end (length file) 0;
          (mem, pos) = fread file pos sizeof_ArchiveFooter (l_stack_footer env)
      in (footer_of_bytes mem, pos))"

text \<open>Step 2, first half: \<^verbatim>\<open>entry_count\<close> and the position after reading it.\<close>

definition read_entry_count :: "loader_env \<Rightarrow> byte list \<Rightarrow> ArchiveFooter \<Rightarrow> nat \<Rightarrow> 64 word \<times> nat" where
  "read_entry_count env file footer pos =
     (let pos = fseek_set pos (manifest_offset footer);
          (mem, pos) = fread file pos 8 (l_stack_entry_count env)
      in (de64 mem, pos))"

text \<open>Step 2, second half: the array \<^verbatim>\<open>manifest\<close> and the position after reading it.\<close>

definition read_manifest ::
  "loader_env \<Rightarrow> byte list \<Rightarrow> 64 word \<Rightarrow> nat \<Rightarrow> ManifestEntry list \<times> nat" where
  "read_manifest env file entry_count pos =
     (let (mem, pos) = fread file pos (sizeof_ManifestEntry * unat entry_count)
                         (l_heap_manifest env)
      in (map (\<lambda>i. entry_of_bytes
                     (take sizeof_ManifestEntry (drop (sizeof_ManifestEntry * i) mem)))
              [0..<unat entry_count],
          pos))"

subsection \<open>Extraction\<close>

text \<open>
  The state of the extraction loop: the position in the own file, the content of
  the transfer buffer, the calls made so far and \<^verbatim>\<open>main_exe_path\<close>.
\<close>

record extract_state =
  position :: nat
  buffer :: "nat \<Rightarrow> byte"
  calls :: "sys_call list"
  main_exe_path :: string

text \<open>
  The loop that creates subdirectories walks over \<^verbatim>\<open>out_path\<close> from the character
  after \<^verbatim>\<open>temp_dir\<close> and its backslash. \<open>before\<close> is the part of \<^verbatim>\<open>out_path\<close>
  already passed, \<open>after\<close> the part still ahead; at a backslash or slash the part
  passed is given to \<^verbatim>\<open>CreateDirectoryA\<close> and the character becomes a backslash.
  The result is the calls made and \<^verbatim>\<open>out_path\<close> as the loop leaves it.
\<close>

fun create_subdirectories :: "string \<Rightarrow> string \<Rightarrow> sys_call list \<times> string" where
  "create_subdirectories before [] = ([], before)"
| "create_subdirectories before (c # after) =
     (if c = BACKSLASH \<or> c = SLASH then
        let (made, out_path) = create_subdirectories (before @ [BACKSLASH]) after
        in (CreateDirectoryA before # made, out_path)
      else create_subdirectories (before @ [c]) after)"

text \<open>
  The inner \<^verbatim>\<open>while (remaining > 0)\<close> loop: \<open>out\<close> is what has been written to the
  output file. \<^verbatim>\<open>fwrite\<close> writes \<open>to_read\<close> bytes of the buffer whatever \<^verbatim>\<open>fread\<close>
  returned.
\<close>

function extract_loop ::
  "byte list \<Rightarrow> nat \<Rightarrow> (nat \<Rightarrow> byte) \<Rightarrow> 64 word \<Rightarrow> byte list \<Rightarrow>
   nat \<times> (nat \<Rightarrow> byte) \<times> byte list" where
  "extract_loop file pos buf remaining out =
     (if remaining > 0 then
        let to_read = (if remaining > 1024 * 1024 then 1024 * 1024 else unat remaining);
            (content, pos') = fread file pos to_read buf;
            buf' = (\<lambda>i. if i < to_read then content ! i else buf i)
        in extract_loop file pos' buf' (remaining - of_nat to_read) (out @ content)
      else (pos, buf, out))"
  by pat_completeness auto
termination
proof (relation "measure (\<lambda>(f, pos, buf, remaining, out). unat remaining)")
  show "wf (measure (\<lambda>(f, pos, buf, remaining, out). unat remaining))"
    by simp
next
  fix f :: "byte list" and pos :: nat and buf :: "nat \<Rightarrow> byte"
    and remaining :: "64 word" and out :: "byte list" and to_read :: nat
    and x :: "byte list \<times> nat" and content :: "byte list" and pos' :: nat
    and buf' :: "nat \<Rightarrow> byte"
  assume pos: "0 < remaining"
    and to_read: "to_read = (if 1024 * 1024 < remaining then 1024 * 1024 else unat remaining)"
  have "unat (remaining - of_nat to_read) < unat remaining"
  proof (cases "remaining > 1024 * 1024")
    case True
    then have "unat (remaining - 1048576) = unat remaining - 1048576"
      by (simp add: unat_sub word_le_nat_alt word_less_nat_alt)
    moreover have "unat remaining > 1048576"
      using True by (simp add: word_less_nat_alt)
    ultimately show ?thesis
      using True to_read by simp
  next
    case False
    then show ?thesis
      using pos to_read by (simp add: word_less_nat_alt)
  qed
  then show "((f, pos', buf', remaining - of_nat to_read, out @ content),
              (f, pos, buf, remaining, out))
             \<in> measure (\<lambda>(f, pos, buf, remaining, out). unat remaining)"
    by simp
qed

declare extract_loop.simps [simp del]

text \<open>One round of the \<^verbatim>\<open>for\<close> loop over the manifest.\<close>

definition extract_entry ::
  "loader_env \<Rightarrow> byte list \<Rightarrow> ManifestEntry \<Rightarrow> extract_state \<Rightarrow> extract_state" where
  "extract_entry env file entry st =
     (let temp_dir = l_temp_dir env;
          out_path = snprintf (temp_dir @ [BACKSLASH] @ c_str (relative_path entry));
          (made, out_path) =
            create_subdirectories (take (length temp_dir + 1) out_path)
              (drop (length temp_dir + 1) out_path);
          st = st\<lparr>calls := calls st @ made\<rparr>
      in if \<not> l_fopen_wb env (calls st) out_path then st
         else
           let pos = fseek_set (position st) (offset entry);
               (pos, buf, out) = extract_loop file pos (buffer st) (size_bytes entry) [];
               st = st\<lparr>position := pos, buffer := buf,
                       calls := calls st @ [WriteFile out_path out]\<rparr>
           in if is_executable entry \<noteq> 0 then st\<lparr>main_exe_path := out_path\<rparr> else st)"

subsection \<open>Cleaning up\<close>

text \<open>
  \<^verbatim>\<open>recursive_delete_directory\<close> calls itself for every subdirectory; as for
  \<^verbatim>\<open>walk_directory\<close>, the second argument bounds the depth of the recursion and the
  result is \<open>None\<close> beyond it. Otherwise the result is the value returned and the
  calls made so far.
\<close>

fun recursive_delete_directory ::
    "loader_env \<Rightarrow> nat \<Rightarrow> string \<Rightarrow> sys_call list \<Rightarrow> (bool \<times> sys_call list) option"
  and delete_entries ::
    "loader_env \<Rightarrow> nat \<Rightarrow> string \<Rightarrow> (string \<times> bool) list \<Rightarrow> sys_call list \<Rightarrow>
     sys_call list option"
where
  "recursive_delete_directory env 0 path done = None"
| "recursive_delete_directory env (Suc depth) path done =
     (case l_find_files env done (snprintf (path @ [BACKSLASH] @ ''*.*'')) of
        None \<Rightarrow> Some (False, done)
      | Some found \<Rightarrow>
          (case delete_entries env depth path found done of
             None \<Rightarrow> None
           | Some done' \<Rightarrow>
               Some (l_remove_directory env done' path, done' @ [RemoveDirectoryA path])))"
| "delete_entries env depth path [] done = Some done"
| "delete_entries env depth path ((cFileName, is_dir) # others) done =
     (if cFileName \<noteq> ''.'' \<and> cFileName \<noteq> ''..'' then
        let full_path = snprintf (path @ [BACKSLASH] @ cFileName) in
        if is_dir then
          (case recursive_delete_directory env depth full_path done of
             None \<Rightarrow> None
           | Some (removed, done') \<Rightarrow> delete_entries env depth path others done')
        else delete_entries env depth path others (done @ [DeleteFileA full_path])
      else delete_entries env depth path others done)"

subsection \<open>The loader's main function\<close>

text \<open>
  How a run of the loader ends, each time with the calls made: it returns an exit
  code; or it waits for a child that never exits; or it does what the C source does
  not determine (it uses a null pointer or memory outside its arrays, or the
  recursion exhausts the stack). The line that \<^verbatim>\<open>main\<close> prints first is left out.
\<close>

datatype loader_outcome =
    LReturn "32 word" "sys_call list"
  | LBlocked "sys_call list"
  | LUndefined "sys_call list"

text \<open>Steps 3 and 4: the temporary directory and the loop over the manifest.\<close>

definition extract_all ::
  "loader_env \<Rightarrow> byte list \<Rightarrow> ManifestEntry list \<Rightarrow> nat \<Rightarrow> extract_state" where
  "extract_all env file manifest pos =
     (let temp_dir = l_temp_dir env
      in fold (extract_entry env file) manifest
           \<lparr> position = pos, buffer = l_heap_buffer env,
             calls = [GetTempFileNameA temp_dir, DeleteFileA temp_dir,
                      CreateDirectoryA temp_dir],
             main_exe_path = [] \<rparr>)"

text \<open>Steps 5 and 6: the child, the removal of the directory, the exit code.\<close>

definition launch_and_clean_up :: "loader_env \<Rightarrow> nat \<Rightarrow> extract_state \<Rightarrow> loader_outcome" where
  "launch_and_clean_up env stack st =
     (let temp_dir = l_temp_dir env;
          exit_code = (1 :: 32 word);
          started =
            (if length (main_exe_path st) > 0
             then Some (l_create_process env (calls st) (main_exe_path st)
                          (l_cmd_line env) temp_dir)
             else None);
          done =
            (if length (main_exe_path st) > 0
             then calls st @ [CreateProcessA (main_exe_path st) (l_cmd_line env) temp_dir]
             else calls st)
      in if started = Some NeverExits then LBlocked done
         else
           let exit_code = (case started of Some (Exited code) \<Rightarrow> code | _ \<Rightarrow> exit_code)
           in case recursive_delete_directory env stack temp_dir done of
                None \<Rightarrow> LUndefined done
              | Some (removed, done') \<Rightarrow> LReturn exit_code done')"

text \<open>
  \<^verbatim>\<open>main\<close>. \<^verbatim>\<open>strcmp(footer.magic, MAGIC_BYTES)\<close> compares up to the first NUL, which
  the signature has at index 7. With a manifest the block for which could not be
  allocated, or whose size does not fit 64 bits, or with a \<^verbatim>\<open>temp_dir\<close> so long that
  \<^verbatim>\<open>out_path\<close> ends before the character the inner loop starts at, the loader reads
  through a null pointer or outside its arrays as soon as there is an entry.
\<close>

definition loader :: "loader_env \<Rightarrow> nat \<Rightarrow> loader_outcome" where
  "loader env stack =
     (case l_self env of
        None \<Rightarrow> LReturn 1 []
      | Some file \<Rightarrow>
          let (footer, pos) = read_footer env file in
          if c_str (magic footer) \<noteq> MAGIC_BYTES then LReturn 2 []
          else
            let (entry_count, pos) = read_entry_count env file footer pos;
                wanted = sizeof_ManifestEntry * unat entry_count
            in if entry_count \<noteq> 0 \<and>
                  (wanted \<ge> 2 ^ 64 \<or> \<not> l_malloc env wanted \<or>
                   length (l_temp_dir env) \<ge> MAX_PATH - 1)
               then LUndefined []
               else
                 let (manifest, pos) = read_manifest env file entry_count pos
                 in launch_and_clean_up env stack (extract_all env file manifest pos))"

section \<open>Notions for stating the properties\<close>

subsection \<open>The files a walk reaches\<close>

text \<open>
  The pairs of \<^verbatim>\<open>relative_path\<close> and \<^verbatim>\<open>full_path\<close> for which \<^verbatim>\<open>walk_directory\<close> takes
  its \<^verbatim>\<open>else\<close> branch, in the order it takes it: the same recursion as
  \<open>walk_directory\<close> without the packing.
\<close>

fun walk_files ::
    "packer_env \<Rightarrow> nat \<Rightarrow> string \<Rightarrow> string \<Rightarrow> (string \<times> string) list option"
  and walk_files_entries ::
    "packer_env \<Rightarrow> nat \<Rightarrow> string \<Rightarrow> string \<Rightarrow> (string \<times> bool) list \<Rightarrow>
     (string \<times> string) list option"
where
  "walk_files env 0 base_path current_path = None"
| "walk_files env (Suc depth) base_path current_path =
     (case p_find_files env
             (snprintf (base_path @ [BACKSLASH] @ current_path @ [BACKSLASH] @ ''*'')) of
        None \<Rightarrow> Some []
      | Some found \<Rightarrow> walk_files_entries env depth base_path current_path found)"
| "walk_files_entries env depth base_path current_path [] = Some []"
| "walk_files_entries env depth base_path current_path ((cFileName, is_dir) # others) =
     (if cFileName \<noteq> ''.'' \<and> cFileName \<noteq> ''..'' then
        let full_path =
              snprintf (base_path @ [BACKSLASH] @ current_path @ [BACKSLASH] @ cFileName);
            relative =
              snprintf (current_path @ (if length current_path > 0 then [BACKSLASH] else [])
                        @ cFileName)
        in if is_dir then
             (case walk_files env depth base_path relative of
                None \<Rightarrow> None
              | Some below \<Rightarrow>
                  (case walk_files_entries env depth base_path current_path others of
                     None \<Rightarrow> None
                   | Some beside \<Rightarrow> Some (below @ beside)))
           else
             (case walk_files_entries env depth base_path current_path others of
                None \<Rightarrow> None
              | Some beside \<Rightarrow> Some ((relative, full_path) # beside))
      else walk_files_entries env depth base_path current_path others)"

subsection \<open>What one call of the packer's functions adds\<close>

text \<open>The bytes that \<^verbatim>\<open>append_file_to_archive\<close> appends for the path of a file other
  than the output file: none when the file cannot be opened.\<close>

definition payload :: "packer_env \<Rightarrow> string \<Rightarrow> byte list" where
  "payload env path = (case fopen_rb env path of None \<Rightarrow> [] | Some content \<Rightarrow> content)"

text \<open>The lines that \<^verbatim>\<open>append_file_to_archive\<close> prints for a path.\<close>

definition lines_printed :: "packer_env \<Rightarrow> string \<Rightarrow> string list" where
  "lines_printed env path =
     (case fopen_rb env path of
        None \<Rightarrow> [''Warning: Could not open file '' @ path @ [NEWLINE]]
      | Some content \<Rightarrow> [])"

text \<open>
  The entry of the node made for a file when the list has \<open>k\<close> nodes and the output is
  at position \<open>pos\<close>: \<^verbatim>\<open>offset\<close> is assigned only when the file could be opened.
\<close>

definition new_entry ::
  "packer_env \<Rightarrow> nat \<Rightarrow> nat \<Rightarrow> string \<Rightarrow> string \<Rightarrow> 8 word \<Rightarrow> ManifestEntry" where
  "new_entry env k pos relative path flag =
     (let node = entry_in_memory (p_malloc_node env k);
          node = node\<lparr>relative_path := strcpy (relative_path node) relative,
                       is_executable := flag\<rparr>
      in case fopen_rb env path of
           None \<Rightarrow> node\<lparr>size_bytes := 0\<rparr>
         | Some content \<Rightarrow> node\<lparr>offset := ftell pos, size_bytes := ftell (length content)\<rparr>)"

text \<open>
  What the \<^verbatim>\<open>else\<close> branch of \<^verbatim>\<open>walk_directory\<close> makes of the state for a file that
  is not the output file.
\<close>

definition packed_file :: "packer_env \<Rightarrow> string \<times> string \<Rightarrow> pack_state \<Rightarrow> pack_state" where
  "packed_file env rf st =
     \<lparr> archive = archive st @ payload env (snd rf),
       head = new_entry env (length (head st)) (length (archive st)) (fst rf) (snd rf) 0 #
              head st,
       console = console st @ [''Packing: '' @ fst rf @ [NEWLINE]] @
                 lines_printed env (snd rf) \<rparr>"

text \<open>The entries made for a sequence of files, oldest first.\<close>

fun packed_entries ::
  "packer_env \<Rightarrow> nat \<Rightarrow> nat \<Rightarrow> (string \<times> string) list \<Rightarrow> ManifestEntry list" where
  "packed_entries env k pos [] = []"
| "packed_entries env k pos ((relative, path) # fs) =
     new_entry env k pos relative path 0 #
     packed_entries env (Suc k) (pos + length (payload env path)) fs"

text \<open>
  What a successful run has written before the manifest, the list it has built, and
  the lines it has printed, for the files \<open>fs\<close> that the walk reached.
\<close>

definition packed_body :: "packer_env \<Rightarrow> string \<Rightarrow> (string \<times> string) list \<Rightarrow> byte list" where
  "packed_body env main_exe fs =
     payload env ''loader.exe'' @ concat (map (\<lambda>rf. payload env (snd rf)) fs) @
     payload env main_exe"

definition packed_manifest ::
  "packer_env \<Rightarrow> string \<Rightarrow> (string \<times> string) list \<Rightarrow> ManifestEntry list" where
  "packed_manifest env main_exe fs =
     new_entry env (length fs)
       (length (payload env ''loader.exe'' @ concat (map (\<lambda>rf. payload env (snd rf)) fs)))
       (after_last_backslash main_exe) main_exe 1 #
     rev (packed_entries env 0 (length (payload env ''loader.exe'')) fs)"

definition lines_of_run :: "packer_env \<Rightarrow> string list \<Rightarrow> (string \<times> string) list \<Rightarrow> string list" where
  "lines_of_run env argv fs =
     [''Writing loader stub...'' @ [NEWLINE]] @
     concat (map (\<lambda>rf. [''Packing: '' @ fst rf @ [NEWLINE]] @ lines_printed env (snd rf)) fs) @
     [''Packing main executable: '' @ argv ! 2 @ [NEWLINE]] @ lines_printed env (argv ! 2) @
     [[NEWLINE] @ ''Successfully created '' @ argv ! 3 @ [NEWLINE]]"

subsection \<open>Archives and what is read from them\<close>

text \<open>
  The file that consists of \<open>body\<close> (loader stub and payloads), the entry count, the
  entries and the footer that points behind \<open>body\<close>.
\<close>

definition archive_layout :: "byte list \<Rightarrow> ManifestEntry list \<Rightarrow> byte list" where
  "archive_layout body entries =
     body @ le64 (of_nat (length entries)) @ concat (map entry_bytes entries) @
     footer_bytes \<lparr> manifest_offset = ftell (length body), magic = MAGIC_BYTES @ [NUL] \<rparr>"

text \<open>The array \<^verbatim>\<open>manifest\<close> that the loader holds after step 2.\<close>

definition loader_manifest :: "loader_env \<Rightarrow> byte list \<Rightarrow> ManifestEntry list" where
  "loader_manifest env file =
     (let (footer, pos) = read_footer env file;
          (entry_count, pos) = read_entry_count env file footer pos
      in fst (read_manifest env file entry_count pos))"

text \<open>The string in the \<^verbatim>\<open>relative_path\<close> of an entry.\<close>

definition entry_name :: "ManifestEntry \<Rightarrow> string" where
  "entry_name e = c_str (relative_path e)"

text \<open>A character array of \<open>MAX_PATH\<close> characters that holds a string and is NUL after it.\<close>

definition char_array :: "string \<Rightarrow> char list" where
  "char_array s = s @ replicate (MAX_PATH - length s) NUL"

subsection \<open>What the loader does for one entry\<close>

text \<open>
  The \<^verbatim>\<open>CreateDirectoryA\<close> calls that \<^verbatim>\<open>extract_entry\<close> makes for an entry and
  \<^verbatim>\<open>out_path\<close> as it is when \<^verbatim>\<open>fopen\<close> is called.
\<close>

definition prepared_path :: "loader_env \<Rightarrow> ManifestEntry \<Rightarrow> sys_call list \<times> string" where
  "prepared_path env entry =
     (let temp_dir = l_temp_dir env;
          out_path = snprintf (temp_dir @ [BACKSLASH] @ c_str (relative_path entry))
      in create_subdirectories (take (length temp_dir + 1) out_path)
           (drop (length temp_dir + 1) out_path))"

definition target :: "loader_env \<Rightarrow> ManifestEntry \<Rightarrow> string" where
  "target env entry = snd (prepared_path env entry)"

text \<open>The bytes last written to a path by a sequence of calls.\<close>

definition written :: "sys_call list \<Rightarrow> string \<Rightarrow> byte list option" where
  "written done path =
     fold (\<lambda>c found. case c of
                        WriteFile p bytes \<Rightarrow> if p = path then Some bytes else found
                      | _ \<Rightarrow> found)
       done None"

text \<open>The paths a sequence of calls writes files at, and whether it starts a process.\<close>

fun write_paths :: "sys_call list \<Rightarrow> string list" where
  "write_paths [] = []"
| "write_paths (WriteFile p bytes # done) = p # write_paths done"
| "write_paths (c # done) = write_paths done"

fun starts_process :: "sys_call list \<Rightarrow> bool" where
  "starts_process [] = False"
| "starts_process (CreateProcessA application command_line directory # done) = True"
| "starts_process (c # done) = starts_process done"

text \<open>The calls made in a run of the loader.\<close>

fun calls_of :: "loader_outcome \<Rightarrow> sys_call list" where
  "calls_of (LReturn code done) = done"
| "calls_of (LBlocked done) = done"
| "calls_of (LUndefined done) = done"

subsection \<open>What an entry refers to\<close>

text \<open>
  The bytes that an entry's offset and size select from the loader's file, and
  whether the two lie within that file. The offset passes through the \<^verbatim>\<open>long\<close>
  argument of \<^verbatim>\<open>fseek\<close>, so only offsets below \<open>2\<^sup>3\<^sup>1\<close> arrive as they are.
\<close>

definition stored :: "byte list \<Rightarrow> ManifestEntry \<Rightarrow> byte list" where
  "stored file e = take (unat (size_bytes e)) (drop (unat (offset e)) file)"

definition in_bounds :: "byte list \<Rightarrow> ManifestEntry \<Rightarrow> bool" where
  "in_bounds file e \<longleftrightarrow>
     size_bytes e = 0 \<or>
     unat (offset e) < 2 ^ 31 \<and> unat (offset e) + unat (size_bytes e) \<le> length file"

text \<open>
  The spec's words for a path that does not resolve outside the extraction root:
  the path is cut at every backslash and slash, a segment \<^verbatim>\<open>..\<close> leaves the
  directory reached so far, \<^verbatim>\<open>.\<close> and empty segments stay in it, and the
  directories of the root must come out as the first directories of the path.
\<close>

fun spec_segments :: "string \<Rightarrow> string list" where
  "spec_segments [] = [[]]"
| "spec_segments (c # cs) =
     (if c = BACKSLASH \<or> c = SLASH then [] # spec_segments cs
      else (case spec_segments cs of
              [] \<Rightarrow> [[c]]
            | segment # segments \<Rightarrow> (c # segment) # segments))"

definition spec_resolve :: "string \<Rightarrow> string list" where
  "spec_resolve path =
     fold (\<lambda>segment above.
             if segment = ''..'' then butlast above
             else if segment = ''.'' \<or> segment = [] then above
             else above @ [segment])
       (spec_segments path) []"

definition spec_within_root :: "string \<Rightarrow> string \<Rightarrow> bool" where
  "spec_within_root root path \<longleftrightarrow>
     take (length (spec_resolve root)) (spec_resolve path) = spec_resolve root"

section \<open>Example environments\<close>

text \<open>
  A host on which every call of the loader succeeds: memory is zeroed, the temporary
  directory is \<^verbatim>\<open>C:\T\d2e1.tmp\<close>, nothing is found when the directory is searched at
  the end, and the child exits with code 7.
\<close>

definition quiet_loader_env :: "byte list \<Rightarrow> loader_env" where
  "quiet_loader_env file =
     \<lparr> l_self = Some file,
       l_temp_dir = ''C:'' @ [BACKSLASH] @ ''T'' @ [BACKSLASH] @ ''d2e1.tmp'',
       l_cmd_line = ''Out.exe'',
       l_fopen_wb = (\<lambda>done path. True),
       l_create_process = (\<lambda>done application command_line directory. Exited 7),
       l_find_files = (\<lambda>done pattern. None),
       l_remove_directory = (\<lambda>done path. True),
       l_malloc = (\<lambda>n. True),
       l_stack_footer = (\<lambda>i. 0),
       l_stack_entry_count = (\<lambda>i. 0),
       l_heap_manifest = (\<lambda>i. 0),
       l_heap_buffer = (\<lambda>i. 0) \<rparr>"

text \<open>
  The same host, except that \<^verbatim>\<open>Game.exe\<close> cannot be created in the temporary
  directory, and that the search at the end finds there what the example archive
  leaves without it: \<^verbatim>\<open>a.txt\<close> and \<^verbatim>\<open>Content\<close> with \<^verbatim>\<open>readme.txt\<close>.
\<close>

definition picky_loader_env :: "byte list \<Rightarrow> loader_env" where
  "picky_loader_env file =
     (quiet_loader_env file)
       \<lparr> l_fopen_wb := (\<lambda>before path.
            path \<noteq> ''C:'' @ [BACKSLASH] @ ''T'' @ [BACKSLASH] @ ''d2e1.tmp'' @ [BACKSLASH] @
                   ''Game.exe''),
         l_find_files := (\<lambda>before pattern.
            if pattern = ''C:'' @ [BACKSLASH] @ ''T'' @ [BACKSLASH] @ ''d2e1.tmp'' @
                         [BACKSLASH] @ ''*.*''
              then Some [(''.'', True), (''..'', True), (''a.txt'', False), (''Content'', True)]
            else if pattern = ''C:'' @ [BACKSLASH] @ ''T'' @ [BACKSLASH] @ ''d2e1.tmp'' @
                              [BACKSLASH] @ ''Content'' @ [BACKSLASH] @ ''*.*''
              then Some [(''.'', True), (''..'', True), (''readme.txt'', False)]
            else None) \<rparr>"

text \<open>
  A host for the packer: the directory \<^verbatim>\<open>Dir\<close> holds \<^verbatim>\<open>a.txt\<close> (one byte) and the
  subdirectory \<^verbatim>\<open>Content\<close> with \<^verbatim>\<open>readme.txt\<close> (\<^verbatim>\<open>hello\<close>); \<^verbatim>\<open>loader.exe\<close> has three
  bytes and \<^verbatim>\<open>Game.exe\<close> two; new memory is zeroed; no file has a second name.
  \<open>locked\<close> says which files are kept from being read.
\<close>

definition example_host :: "(string \<Rightarrow> bool) \<Rightarrow> packer_env" where
  "example_host locked =
     \<lparr> p_files = (\<lambda>path.
         if path = ''loader.exe'' then Some [0x4D, 0x5A, 0x90]
         else if path = ''Dir'' @ [BACKSLASH, BACKSLASH] @ ''a.txt'' then Some [0x41]
         else if path = ''Dir'' @ [BACKSLASH] @ ''Content'' @ [BACKSLASH] @ ''readme.txt''
           then Some (map byte_of_char ''hello'')
         else if path = ''Game.exe'' then Some [0x4D, 0x5A]
         else None),
       p_locked = locked,
       p_fopen_wb = (\<lambda>path. True),
       p_same_file = (\<lambda>path out. False),
       p_find_files = (\<lambda>pattern.
         if pattern = ''Dir'' @ [BACKSLASH, BACKSLASH] @ ''*''
           then Some [(''.'', True), (''..'', True), (''a.txt'', False), (''Content'', True)]
         else if pattern = ''Dir'' @ [BACKSLASH] @ ''Content'' @ [BACKSLASH] @ ''*''
           then Some [(''.'', True), (''..'', True), (''readme.txt'', False)]
         else None),
       p_malloc_node = (\<lambda>k i. 0),
       p_stack_entry = (\<lambda>i. 0) \<rparr>"

definition example_argv :: "string list" where
  "example_argv = [''packer.exe'', ''Dir'', ''Game.exe'', ''Out.exe'']"

definition example_files :: "(string \<times> string) list" where
  "example_files =
     [(''a.txt'', ''Dir'' @ [BACKSLASH, BACKSLASH] @ ''a.txt''),
      (''Content'' @ [BACKSLASH] @ ''readme.txt'',
       ''Dir'' @ [BACKSLASH] @ ''Content'' @ [BACKSLASH] @ ''readme.txt'')]"

text \<open>The archive that the packer makes on this host when nothing is locked.\<close>

definition example_body :: "byte list" where
  "example_body = [0x4D, 0x5A, 0x90] @ [0x41] @ map byte_of_char ''hello'' @ [0x4D, 0x5A]"

definition example_manifest :: "ManifestEntry list" where
  "example_manifest =
     [\<lparr> offset = 9, size_bytes = 2, is_executable = 1,
        relative_path = char_array ''Game.exe'' \<rparr>,
      \<lparr> offset = 4, size_bytes = 5, is_executable = 0,
        relative_path = char_array (''Content'' @ [BACKSLASH] @ ''readme.txt'') \<rparr>,
      \<lparr> offset = 3, size_bytes = 1, is_executable = 0,
        relative_path = char_array ''a.txt'' \<rparr>]"

definition example_archive :: "byte list" where
  "example_archive = archive_layout example_body example_manifest"

text \<open>The same with \<^verbatim>\<open>readme.txt\<close> locked.\<close>

definition readme_locked :: "string \<Rightarrow> bool" where
  "readme_locked path \<longleftrightarrow>
     path = ''Dir'' @ [BACKSLASH] @ ''Content'' @ [BACKSLASH] @ ''readme.txt''"

definition locked_body :: "byte list" where
  "locked_body = [0x4D, 0x5A, 0x90] @ [0x41] @ [0x4D, 0x5A]"

definition locked_manifest :: "ManifestEntry list" where
  "locked_manifest =
     [\<lparr> offset = 4, size_bytes = 2, is_executable = 1,
        relative_path = char_array ''Game.exe'' \<rparr>,
      \<lparr> offset = 0, size_bytes = 0, is_executable = 0,
        relative_path = char_array (''Content'' @ [BACKSLASH] @ ''readme.txt'') \<rparr>,
      \<lparr> offset = 3, size_bytes = 1, is_executable = 0,
        relative_path = char_array ''a.txt'' \<rparr>]"

definition locked_archive :: "byte list" where
  "locked_archive = archive_layout locked_body locked_manifest"

text \<open>
  The example host with a main executable that is named with a forward slash:
  \<^verbatim>\<open>packer.exe Dir Bin/Game.exe Out.exe\<close>, and the archive the packer makes of it.
\<close>

definition slash_host :: packer_env where
  "slash_host =
     (example_host (\<lambda>p. False))
       \<lparr> p_files := (\<lambda>path.
            if path = ''Bin/Game.exe'' then Some [0x4D, 0x5A]
            else p_files (example_host (\<lambda>p. False)) path) \<rparr>"

definition slash_argv :: "string list" where
  "slash_argv = [''packer.exe'', ''Dir'', ''Bin/Game.exe'', ''Out.exe'']"

definition slash_manifest :: "ManifestEntry list" where
  "slash_manifest =
     [\<lparr> offset = 9, size_bytes = 2, is_executable = 1,
        relative_path = char_array ''Bin/Game.exe'' \<rparr>,
      \<lparr> offset = 4, size_bytes = 5, is_executable = 0,
        relative_path = char_array (''Content'' @ [BACKSLASH] @ ''readme.txt'') \<rparr>,
      \<lparr> offset = 3, size_bytes = 1, is_executable = 0,
        relative_path = char_array ''a.txt'' \<rparr>]"

definition slash_archive :: "byte list" where
  "slash_archive = archive_layout example_body slash_manifest"

text \<open>
  The example host with the output file inside the directory that is packed:
  \<^verbatim>\<open>packer.exe Dir Game.exe Dir\Out.exe\<close>. The output file is created before the
  walk, so the walk finds it, under the name \<^verbatim>\<open>Dir\\Out.exe\<close>.
\<close>

definition inside_host :: packer_env where
  "inside_host =
     (example_host (\<lambda>p. False))
       \<lparr> p_find_files := (\<lambda>pattern.
            if pattern = ''Dir'' @ [BACKSLASH, BACKSLASH] @ ''*''
              then Some [(''.'', True), (''..'', True), (''a.txt'', False),
                         (''Out.exe'', False), (''Content'', True)]
            else p_find_files (example_host (\<lambda>p. False)) pattern) \<rparr>"

definition inside_argv :: "string list" where
  "inside_argv = [''packer.exe'', ''Dir'', ''Game.exe'', ''Dir'' @ [BACKSLASH] @ ''Out.exe'']"

text \<open>
  Two files that no run of the packer produces. Both have a footer with the
  signature and a manifest of one entry: in the first the entry's path climbs out
  of the temporary directory, in the second the entry's offset lies behind the end
  of the file.
\<close>

definition escaping_archive :: "byte list" where
  "escaping_archive =
     archive_layout [0x4D, 0x5A, 0x90, 0x58]
       [\<lparr> offset = 3, size_bytes = 1, is_executable = 0,
          relative_path = char_array (''..'' @ [BACKSLASH] @ ''..'' @ [BACKSLASH] @ ''evil.exe'') \<rparr>]"

definition stray_archive :: "byte list" where
  "stray_archive =
     archive_layout [0x4D, 0x5A, 0x90]
       [\<lparr> offset = 1000, size_bytes = 4, is_executable = 0,
          relative_path = char_array ''a.txt'' \<rparr>]"

section \<open>Facts about the layout\<close>

lemma length_le64 [simp]: "length (le64 w) = 8"
  by (simp add: le64_def)

lemma low_byte_or_rest:
  fixes x :: "64 word"
  shows "ucast (ucast x :: byte) OR push_bit 8 (drop_bit 8 x) = x"
proof (rule bit_word_eqI)
  fix n
  assume "n < LENGTH(64)"
  show "bit (ucast (ucast x :: byte) OR push_bit 8 (drop_bit 8 x)) n = bit x n"
  proof (cases "n < 8")
    case True
    then show ?thesis by (simp add: bit_simps)
  next
    case False
    then show ?thesis using \<open>n < LENGTH(64)\<close> by (simp add: bit_simps)
  qed
qed

lemma de64_le64 [simp]: "de64 (le64 w) = w"
proof -
  have s: "\<And>k. ucast (ucast (drop_bit k w) :: byte) OR push_bit 8 (drop_bit (k + 8) w)
             = drop_bit k w"
    using low_byte_or_rest [of "drop_bit k w" for k] by (simp add: add.commute)
  have "de64 (le64 w) =
        ucast (ucast (drop_bit 0 w) :: byte) OR push_bit 8
        (ucast (ucast (drop_bit 8 w) :: byte) OR push_bit 8
        (ucast (ucast (drop_bit 16 w) :: byte) OR push_bit 8
        (ucast (ucast (drop_bit 24 w) :: byte) OR push_bit 8
        (ucast (ucast (drop_bit 32 w) :: byte) OR push_bit 8
        (ucast (ucast (drop_bit 40 w) :: byte) OR push_bit 8
        (ucast (ucast (drop_bit 48 w) :: byte) OR push_bit 8
        (ucast (ucast (drop_bit 56 w) :: byte) OR push_bit 8 (drop_bit 64 w))))))))"
    by (simp add: de64_def le64_def upt_rec)
  also have "\<dots> = drop_bit 0 w"
  proof -
    have s7: "ucast (ucast (drop_bit 56 w) :: byte) OR push_bit 8 (drop_bit 64 w) = drop_bit 56 w"
      using s [of 56] by simp
    have s6: "ucast (ucast (drop_bit 48 w) :: byte) OR push_bit 8 (drop_bit 56 w) = drop_bit 48 w"
      using s [of 48] by simp
    have s5: "ucast (ucast (drop_bit 40 w) :: byte) OR push_bit 8 (drop_bit 48 w) = drop_bit 40 w"
      using s [of 40] by simp
    have s4: "ucast (ucast (drop_bit 32 w) :: byte) OR push_bit 8 (drop_bit 40 w) = drop_bit 32 w"
      using s [of 32] by simp
    have s3: "ucast (ucast (drop_bit 24 w) :: byte) OR push_bit 8 (drop_bit 32 w) = drop_bit 24 w"
      using s [of 24] by simp
    have s2: "ucast (ucast (drop_bit 16 w) :: byte) OR push_bit 8 (drop_bit 24 w) = drop_bit 16 w"
      using s [of 16] by simp
    have s1: "ucast (ucast (drop_bit 8 w) :: byte) OR push_bit 8 (drop_bit 16 w) = drop_bit 8 w"
      using s [of 8] by simp
    have s0: "ucast (ucast (drop_bit 0 w) :: byte) OR push_bit 8 (drop_bit 8 w) = drop_bit 0 w"
      using s [of 0] by simp
    show ?thesis
      by (simp only: s7 s6 s5 s4 s3 s2 s1 s0)
  qed
  finally show ?thesis by simp
qed

lemma de64_take8: "de64 (take 8 bs) = de64 bs"
  by (simp add: de64_def)

lemma de64_le64_append [simp]: "de64 (le64 w @ bs) = w"
proof -
  have "de64 (le64 w @ bs) = de64 (take 8 (le64 w @ bs))" by (simp only: de64_take8)
  then show ?thesis by simp
qed

lemma char_of_byte_of_char [simp]: "char_of_byte (byte_of_char c) = c"
proof -
  have "(of_char c :: byte) = of_nat (of_char c)" by (simp add: of_nat_of_char)
  then have "unat (of_char c :: byte) = take_bit 8 (of_char c :: nat)"
    by (simp add: unsigned_of_nat)
  then show ?thesis
    by (simp add: char_of_byte_def byte_of_char_def char_of_take_bit_eq)
qed

lemma map_char_of_byte_of_char [simp]: "map char_of_byte (map byte_of_char cs) = cs"
  by (induction cs) simp_all

lemma unat_of_nat_64: "n < 2 ^ 64 \<Longrightarrow> unat (of_nat n :: 64 word) = n"
  by (simp add: unat_of_nat)

lemma c_str_strcpy [simp]: "NUL \<notin> set src \<Longrightarrow> c_str (strcpy dst src) = src"
  by (auto simp: c_str_def strcpy_def takeWhile_tail)

lemma length_strcpy:
  "length src < length dst \<Longrightarrow> length (strcpy dst src) = length dst"
  by (simp add: strcpy_def)

lemma length_relative_path_in_memory [simp]:
  "length (relative_path (entry_in_memory mem)) = MAX_PATH"
  by (simp add: entry_in_memory_def entry_of_bytes_def sizeof_ManifestEntry_def)

lemma length_snprintf [simp]: "length (snprintf s) < MAX_PATH"
  by (simp add: snprintf_def MAX_PATH_def)

lemma length_entry_bytes [simp]:
  "length (entry_bytes e) = 17 + length (relative_path e)"
  by (simp add: entry_bytes_def)

lemma entry_of_bytes_entry_bytes:
  "length (relative_path e) = MAX_PATH \<Longrightarrow> entry_of_bytes (entry_bytes e) = e"
  by (cases e) (simp add: entry_of_bytes_def entry_bytes_def nth_append o_def)

lemma length_footer_bytes [simp]:
  "length (footer_bytes f) = 8 + length (magic f)"
  by (simp add: footer_bytes_def)

lemma footer_of_bytes_footer_bytes:
  "length (magic f) = 8 \<Longrightarrow> footer_of_bytes (footer_bytes f) = f"
  by (cases f) (simp add: footer_of_bytes_def footer_bytes_def o_def)

lemma block_of_concat:
  assumes "\<forall>b \<in> set bs. length b = m" and "i < length bs"
  shows "take m (drop (m * i) (concat bs)) = bs ! i"
  using assms
proof (induction bs arbitrary: i)
  case Nil
  then show ?case by simp
next
  case (Cons b bs)
  show ?case
  proof (cases i)
    case 0
    with Cons.prems show ?thesis by simp
  next
    case (Suc j)
    with Cons.prems have "take m (drop (m * j) (concat bs)) = bs ! j"
      by (intro Cons.IH) auto
    moreover have "length b = m" using Cons.prems by simp
    ultimately show ?thesis using Suc by simp
  qed
qed

lemma length_concat_blocks:
  "\<forall>b \<in> set bs. length b = m \<Longrightarrow> length (concat bs) = m * length bs"
  by (induction bs) auto

lemma length_char_array [simp]: "length s \<le> MAX_PATH \<Longrightarrow> length (char_array s) = MAX_PATH"
  by (simp add: char_array_def)

lemma c_str_char_array [simp]: "NUL \<notin> set s \<Longrightarrow> c_str (char_array s) = s"
proof -
  assume "NUL \<notin> set s"
  then have "takeWhile (\<lambda>c. c \<noteq> NUL) (s @ replicate (MAX_PATH - length s) NUL) =
             s @ takeWhile (\<lambda>c. c \<noteq> NUL) (replicate (MAX_PATH - length s) NUL)"
    by (intro takeWhile_append2) auto
  then show ?thesis
    by (simp add: c_str_def char_array_def takeWhile_replicate)
qed

lemma zeroed_entry:
  "entry_in_memory (\<lambda>i. 0) =
     \<lparr> offset = 0, size_bytes = 0, is_executable = 0, relative_path = replicate MAX_PATH NUL \<rparr>"
proof -
  have "map (\<lambda>i. 0 :: byte) [0..<sizeof_ManifestEntry] = replicate sizeof_ManifestEntry 0"
    by (simp add: map_replicate_const)
  moreover have "de64 (replicate 8 0) = 0"
    by (simp add: de64_def numeral_eq_Suc)
  moreover have "char_of_byte 0 = NUL"
    by (simp add: char_of_byte_def char_of_def)
  ultimately show ?thesis
    by (simp add: entry_in_memory_def entry_of_bytes_def sizeof_ManifestEntry_def MAX_PATH_def)
qed

lemma strcpy_zeroed:
  "length s < MAX_PATH \<Longrightarrow> strcpy (replicate MAX_PATH NUL) s = char_array s"
  by (simp add: strcpy_def char_array_def replicate_append_same
      flip: replicate_Suc Suc_diff_Suc)

lemma after_last_backslash_free: "BACKSLASH \<notin> set (after_last_backslash s)"
proof (cases "BACKSLASH \<in> set s")
  case True
  have "\<And>c. c \<in> set (takeWhile (\<lambda>c. c \<noteq> BACKSLASH) (rev s)) \<Longrightarrow> c \<noteq> BACKSLASH"
    by (rule set_takeWhileD [THEN conjunct2])
  with True show ?thesis by (auto simp: after_last_backslash_def)
next
  case False
  then show ?thesis by (simp add: after_last_backslash_def)
qed

lemma after_last_backslash_suffix:
  "\<exists>dir. s = dir @ after_last_backslash s \<and> (dir = [] \<or> last dir = BACKSLASH)"
proof (cases "BACKSLASH \<in> set s")
  case False
  then show ?thesis by (simp add: after_last_backslash_def)
next
  case True
  let ?P = "\<lambda>c. c \<noteq> BACKSLASH"
  let ?d = "dropWhile ?P (rev s)"
  have ne: "?d \<noteq> []" using True by simp
  then have "\<not> ?P (hd ?d)" by (rule hd_dropWhile)
  then have "last (rev ?d) = BACKSLASH" using ne by (simp add: last_rev)
  moreover have "s = rev ?d @ rev (takeWhile ?P (rev s))"
  proof -
    have "rev s = takeWhile ?P (rev s) @ ?d" by simp
    then have "rev (rev s) = rev (takeWhile ?P (rev s) @ ?d)" by (rule arg_cong)
    then show ?thesis by (simp only: rev_rev_ident rev_append)
  qed
  ultimately show ?thesis using True by (auto simp: after_last_backslash_def)
qed

lemma after_last_backslash_subset: "set (after_last_backslash s) \<subseteq> set s"
  using after_last_backslash_suffix [of s] by (metis Un_upper2 set_append)

section \<open>Facts about reading an archive\<close>

lemma fread_whole:
  "pos + n \<le> length file \<Longrightarrow> fread file pos n mem = (take n (drop pos file), pos + n)"
  by (simp add: fread_def Let_def)

lemma read_footer_last16:
  assumes "sizeof_ArchiveFooter \<le> length file"
  shows "read_footer env file =
         (footer_of_bytes (drop (length file - sizeof_ArchiveFooter) file), length file)"
  using assms
  by (simp add: read_footer_def fseek_end_def fread_whole Let_def)

lemma fseek_set_small: "n < 2 ^ 31 \<Longrightarrow> fseek_set pos (of_nat n) = n"
proof -
  assume n: "n < 2 ^ 31"
  have "sint (ucast (of_nat n :: 64 word) :: 32 word) =
        signed_take_bit 31 (uint (of_nat n :: 64 word))"
    by (simp add: signed_ucast_eq)
  moreover have "uint (of_nat n :: 64 word) = int n"
    using n by (simp add: unsigned_of_nat take_bit_nat_eq_self)
  moreover have "signed_take_bit 31 (int n) = int n"
    using n by (intro signed_take_bit_int_eq_self) simp_all
  ultimately show ?thesis by (simp add: fseek_set_def Let_def)
qed

lemma ftell_small: "n < 2 ^ 31 \<Longrightarrow> ftell n = of_nat n"
  by (simp add: ftell_def)

lemma unat_ftell_small: "n < 2 ^ 31 \<Longrightarrow> unat (ftell n) = n"
  by (simp add: ftell_def unat_of_nat_64)

lemma read_layout:
  assumes small: "length (archive_layout body entries) < 2 ^ 31"
    and lens: "\<forall>e \<in> set entries. length (relative_path e) = MAX_PATH"
  shows "read_footer env (archive_layout body entries) =
           (\<lparr> manifest_offset = of_nat (length body), magic = MAGIC_BYTES @ [NUL] \<rparr>,
            length (archive_layout body entries))"
    and "read_entry_count env (archive_layout body entries)
           \<lparr> manifest_offset = of_nat (length body), magic = MAGIC_BYTES @ [NUL] \<rparr> pos =
           (of_nat (length entries), length body + 8)"
    and "read_manifest env (archive_layout body entries) (of_nat (length entries))
           (length body + 8) =
           (entries, length body + 8 + sizeof_ManifestEntry * length entries)"
proof -
  let ?f = "\<lparr> manifest_offset = ftell (length body), magic = MAGIC_BYTES @ [NUL] \<rparr>"
  let ?m = "concat (map entry_bytes entries)"
  have blocks: "\<forall>b \<in> set (map entry_bytes entries). length b = sizeof_ManifestEntry"
    using lens by (simp add: sizeof_ManifestEntry_def)
  have len_m: "length ?m = sizeof_ManifestEntry * length entries"
    using length_concat_blocks [OF blocks] by simp
  have len: "length (archive_layout body entries) =
             length body + 8 + sizeof_ManifestEntry * length entries + 16"
    by (simp add: archive_layout_def len_m MAGIC_BYTES_def)
  have body: "length body < 2 ^ 31" using small len by simp
  have count: "length entries < 2 ^ 64"
  proof -
    have "length entries \<le> sizeof_ManifestEntry * length entries"
      by (simp add: sizeof_ManifestEntry_def)
    with small len have "length entries < 2 ^ 31" by linarith
    then show ?thesis by simp
  qed
  have tell: "ftell (length body) = of_nat (length body)"
    using body by (rule ftell_small)
  have last16: "drop (length (archive_layout body entries) - sizeof_ArchiveFooter)
                  (archive_layout body entries) = footer_bytes ?f"
    by (simp add: archive_layout_def len_m sizeof_ArchiveFooter_def MAGIC_BYTES_def)
  show "read_footer env (archive_layout body entries) =
           (\<lparr> manifest_offset = of_nat (length body), magic = MAGIC_BYTES @ [NUL] \<rparr>,
            length (archive_layout body entries))"
  proof -
    have "sizeof_ArchiveFooter \<le> length (archive_layout body entries)"
      using len by (simp add: sizeof_ArchiveFooter_def)
    then have "read_footer env (archive_layout body entries) =
               (footer_of_bytes (footer_bytes ?f), length (archive_layout body entries))"
      by (simp only: read_footer_last16 last16)
    moreover have "footer_of_bytes (footer_bytes ?f) = ?f"
      by (rule footer_of_bytes_footer_bytes) (simp add: MAGIC_BYTES_def)
    ultimately show ?thesis by (simp add: tell)
  qed
  have at_count: "take 8 (drop (length body) (archive_layout body entries)) =
                  le64 (of_nat (length entries))"
    by (simp add: archive_layout_def)
  show "read_entry_count env (archive_layout body entries)
           \<lparr> manifest_offset = of_nat (length body), magic = MAGIC_BYTES @ [NUL] \<rparr> pos =
           (of_nat (length entries), length body + 8)"
    using len by (simp add: read_entry_count_def fseek_set_small [OF body] fread_whole at_count)
  have at_manifest: "take (sizeof_ManifestEntry * length entries)
                       (drop (length body + 8) (archive_layout body entries)) = ?m"
    by (simp add: archive_layout_def len_m)
  have decode: "map (\<lambda>i. entry_of_bytes
                     (take sizeof_ManifestEntry (drop (sizeof_ManifestEntry * i) ?m)))
                  [0..<length entries] = entries"
  proof (rule nth_equalityI)
    show "length (map (\<lambda>i. entry_of_bytes
                     (take sizeof_ManifestEntry (drop (sizeof_ManifestEntry * i) ?m)))
                  [0..<length entries]) = length entries"
      by simp
  next
    fix i
    assume "i < length (map (\<lambda>i. entry_of_bytes
                     (take sizeof_ManifestEntry (drop (sizeof_ManifestEntry * i) ?m)))
                  [0..<length entries])"
    then have i: "i < length entries" by simp
    then have "take sizeof_ManifestEntry (drop (sizeof_ManifestEntry * i) ?m) =
               entry_bytes (entries ! i)"
      using block_of_concat [OF blocks, of i] by simp
    moreover have "length (relative_path (entries ! i)) = MAX_PATH"
      using lens i by simp
    ultimately show "map (\<lambda>i. entry_of_bytes
                     (take sizeof_ManifestEntry (drop (sizeof_ManifestEntry * i) ?m)))
                  [0..<length entries] ! i = entries ! i"
      using i by (simp add: entry_of_bytes_entry_bytes)
  qed
  show "read_manifest env (archive_layout body entries) (of_nat (length entries))
           (length body + 8) =
           (entries, length body + 8 + sizeof_ManifestEntry * length entries)"
    using len
    by (simp add: read_manifest_def unat_of_nat_64 [OF count] fread_whole at_manifest decode)
qed

lemma loader_manifest_layout:
  assumes "length (archive_layout body entries) < 2 ^ 31"
    and "\<forall>e \<in> set entries. length (relative_path e) = MAX_PATH"
  shows "loader_manifest env (archive_layout body entries) = entries"
  by (simp add: loader_manifest_def read_layout [OF assms])

section \<open>Facts about the packer\<close>

lemma CHUNK_pos [simp]: "0 < CHUNK"
  by (simp add: CHUNK_def)

lemma copy_chunks_apart:
  "copy_chunks (Apart content) pos out = Some (out @ drop pos content)"
proof (induction "length content - pos" arbitrary: pos out rule: less_induct)
  case less
  show ?case
  proof (cases "min CHUNK (length content - pos) > 0")
    case True
    define n where "n = min CHUNK (length content - pos)"
    have "0 < n" "n \<le> length content - pos"
      using True by (simp_all add: n_def)
    then have "length content - (pos + n) < length content - pos"
      by arith
    from less [OF this]
    have "copy_chunks (Apart content) (pos + n) (out @ take n (drop pos content)) =
          Some ((out @ take n (drop pos content)) @ drop (pos + n) content)" .
    moreover have "take n (drop pos content) @ drop (pos + n) content = drop pos content"
      by (metis add.commute append_take_drop_id drop_drop)
    ultimately show ?thesis
      using True by (subst copy_chunks.simps) (simp add: Let_def n_def [symmetric])
  next
    case False
    then have "length content \<le> pos" by simp
    then show ?thesis by (subst copy_chunks.simps) (simp add: Let_def)
  qed
qed

text \<open>Reading the output file, the loop returns only when there is nothing to read.\<close>

lemma copy_chunks_output_returns:
  assumes "copy_chunks f_in pos out = Some r"
  shows "f_in = Output \<longrightarrow> length out \<le> pos \<and> r = out"
proof (rule copy_chunks.raw_induct
    [where P = "\<lambda>f_in pos out r. f_in = Output \<longrightarrow> length out \<le> pos \<and> r = out"], goal_cases)
  case (1 copy f_in pos out r)
  show ?case
  proof
    assume f: "f_in = Output"
    show "length out \<le> pos \<and> r = out"
    proof (cases "min CHUNK (length out - pos) > 0")
      case True
      define n where "n = min CHUNK (length out - pos)"
      from 1(2) True have "copy Output (pos + n) (out @ take n (drop pos out)) = Some r"
        by (simp add: Let_def f n_def)
      from 1(1) [OF this] have "length (out @ take n (drop pos out)) \<le> pos + n"
        by simp
      moreover have "length (take n (drop pos out)) = n"
        by (simp add: n_def)
      ultimately have "length out \<le> pos" by simp
      with True show ?thesis by simp
    next
      case False
      with 1(2) show ?thesis by (simp add: Let_def f)
    qed
  qed
next
  case 2
  show ?case by (rule assms)
qed

lemma copy_chunks_output_never:
  "pos < length out \<Longrightarrow> copy_chunks Output pos out = None"
  using copy_chunks_output_returns [of Output pos out]
  by (cases "copy_chunks Output pos out") auto

lemma copy_chunks_output_empty: "copy_chunks Output 0 [] = Some []"
  by (subst copy_chunks.simps) (simp add: Let_def)

lemma append_file_to_archive_eq:
  assumes "\<not> reads_output env f_archive path"
  shows "append_file_to_archive env f_archive path entry st =
     Some (case fopen_rb env path of
        None \<Rightarrow> entry\<lparr>size_bytes := 0\<rparr>
      | Some content \<Rightarrow>
          entry\<lparr>offset := ftell (length (archive st)), size_bytes := ftell (length content)\<rparr>,
      st\<lparr>archive := archive st @ payload env path,
         console := console st @ lines_printed env path\<rparr>)"
  using assms
  by (simp add: append_file_to_archive_def fopen_in_def payload_def lines_printed_def
      copy_chunks_apart split: option.splits)

lemma append_file_to_archive_output:
  assumes "reads_output env f_archive path"
  shows "append_file_to_archive env f_archive path entry st =
     (if archive st = [] then
        Some (entry\<lparr>offset := ftell 0, size_bytes := ftell 0\<rparr>, st)
      else None)"
  using assms
  by (simp add: append_file_to_archive_def fopen_in_def copy_chunks_output_never
      copy_chunks_output_empty)

lemma ftell_0 [simp]: "ftell 0 = 0"
  by (simp add: ftell_def)

lemma pack_file_eq:
  assumes "\<not> reads_output env f_archive path"
  shows "pack_file env f_archive (relative, path) st =
         Some (packed_file env (relative, path) st)"
  by (simp add: pack_file_def packed_file_def append_file_to_archive_eq [OF assms]
      new_entry_def Let_def split: option.splits)

lemma pack_file_output:
  assumes "reads_output env f_archive path" and "archive st \<noteq> []"
  shows "pack_file env f_archive (relative, path) st = None"
  using assms(2) by (simp add: pack_file_def append_file_to_archive_output [OF assms(1)] Let_def)

lemma pack_main_exe_eq:
  assumes "\<not> reads_output env f_archive main_exe"
  shows "pack_main_exe env f_archive main_exe st =
     Some \<lparr> archive = archive st @ payload env main_exe,
       head = new_entry env (length (head st)) (length (archive st))
                (after_last_backslash main_exe) main_exe 1 # head st,
       console = console st @ [''Packing main executable: '' @ main_exe @ [NEWLINE]] @
                 lines_printed env main_exe \<rparr>"
  by (simp add: pack_main_exe_def append_file_to_archive_eq [OF assms] new_entry_def Let_def
      split: option.splits)

lemma pack_main_exe_output:
  assumes "reads_output env f_archive main_exe" and "archive st \<noteq> []"
  shows "pack_main_exe env f_archive main_exe st = None"
  using assms(2)
  by (simp add: pack_main_exe_def append_file_to_archive_output [OF assms(1)] Let_def)

lemma fold_packed_file:
  "fold (packed_file env) fs st =
     \<lparr> archive = archive st @ concat (map (\<lambda>rf. payload env (snd rf)) fs),
       head = rev (packed_entries env (length (head st)) (length (archive st)) fs) @ head st,
       console = console st @
         concat (map (\<lambda>rf. [''Packing: '' @ fst rf @ [NEWLINE]] @ lines_printed env (snd rf)) fs) \<rparr>"
proof (induction fs arbitrary: st)
  case Nil
  show ?case by simp
next
  case (Cons rf fs)
  obtain relative path where rf: "rf = (relative, path)" by (cases rf)
  show ?case
    by (simp only: rf fold_simps Cons.IH) (simp add: packed_file_def)
qed

lemma archive_fold_packed_file:
  "archive st \<noteq> [] \<Longrightarrow> archive (fold (packed_file env) fs st) \<noteq> []"
  by (simp add: fold_packed_file)

lemma walk_entries_step:
  assumes "cFileName \<noteq> ''.'' \<and> cFileName \<noteq> ''..''"
    and "full_path =
           snprintf (base_path @ [BACKSLASH] @ current_path @ [BACKSLASH] @ cFileName)"
    and "relative =
           snprintf (current_path @ (if length current_path > 0 then [BACKSLASH] else [])
                     @ cFileName)"
  shows "walk_entries env depth f_archive base_path current_path ((cFileName, is_dir) # others)
           st =
         (if is_dir then
            (case walk_directory env depth f_archive base_path relative st of
               Returns st' \<Rightarrow>
                 walk_entries env depth f_archive base_path current_path others st'
             | StackOverflow \<Rightarrow> StackOverflow
             | NeverReturns \<Rightarrow> NeverReturns)
          else
            (case pack_file env f_archive (relative, full_path) st of
               None \<Rightarrow> NeverReturns
             | Some st' \<Rightarrow>
                 walk_entries env depth f_archive base_path current_path others st'))"
    and "walk_files_entries env depth base_path current_path ((cFileName, is_dir) # others) =
         (if is_dir then
            (case walk_files env depth base_path relative of
               None \<Rightarrow> None
             | Some below \<Rightarrow>
                 (case walk_files_entries env depth base_path current_path others of
                    None \<Rightarrow> None
                  | Some beside \<Rightarrow> Some (below @ beside)))
          else
            (case walk_files_entries env depth base_path current_path others of
               None \<Rightarrow> None
             | Some beside \<Rightarrow> Some ((relative, full_path) # beside)))"
  using assms(1)
  by (simp_all only: walk_entries.simps walk_files_entries.simps Let_def assms(2,3) [symmetric]
      if_True simp_thms)

text \<open>
  A walk in which no file read is the output file packs the files that
  \<open>walk_files\<close> lists, one after the other.
\<close>

lemma walk_directory_files:
  "walk_files env depth base_path current_path = Some fs \<Longrightarrow>
   list_all (\<lambda>rf. \<not> reads_output env f_archive (snd rf)) fs \<Longrightarrow>
   walk_directory env depth f_archive base_path current_path st =
     Returns (fold (packed_file env) fs st)"
  and walk_entries_files:
  "walk_files_entries env depth base_path current_path found = Some fs \<Longrightarrow>
   list_all (\<lambda>rf. \<not> reads_output env f_archive (snd rf)) fs \<Longrightarrow>
   walk_entries env depth f_archive base_path current_path found st =
     Returns (fold (packed_file env) fs st)"
proof (induction env depth f_archive base_path current_path st
    and env depth f_archive base_path current_path found st
    arbitrary: fs and fs rule: walk_directory_walk_entries.induct)
  case (1 env f_archive base_path current_path st)
  then show ?case by simp
next
  case (2 env depth f_archive base_path current_path st)
  then show ?case by (auto split: option.splits)
next
  case (3 env depth f_archive base_path current_path st)
  then show ?case by simp
next
  case (4 env depth f_archive base_path current_path cFileName is_dir others st)
  show ?case
  proof (cases "cFileName \<noteq> ''.'' \<and> cFileName \<noteq> ''..''")
    case False
    with 4 show ?thesis by auto
  next
    case named: True
    define full_path where
      "full_path = snprintf (base_path @ [BACKSLASH] @ current_path @ [BACKSLASH] @ cFileName)"
    define relative where
      "relative = snprintf (current_path @ (if length current_path > 0 then [BACKSLASH] else [])
                        @ cFileName)"
    note step = walk_entries_step [OF named full_path_def relative_def]
    show ?thesis
    proof (cases is_dir)
      case True
      from "4.prems"(1) True obtain below beside where
        below: "walk_files env depth base_path relative = Some below"
        and beside: "walk_files_entries env depth base_path current_path others = Some beside"
        and fs: "fs = below @ beside"
        by (auto simp: step(2) simp del: walk_files_entries.simps split: option.splits)
      from "4.prems"(2) have apart:
        "list_all (\<lambda>rf. \<not> reads_output env f_archive (snd rf)) below"
        "list_all (\<lambda>rf. \<not> reads_output env f_archive (snd rf)) beside"
        by (simp_all add: fs)
      have first: "walk_directory env depth f_archive base_path relative st =
                   Returns (fold (packed_file env) below st)"
        by (rule "4.IH"(1) [OF named full_path_def relative_def True below apart(1)])
      have "walk_entries env depth f_archive base_path current_path others
              (fold (packed_file env) below st) =
            Returns (fold (packed_file env) beside (fold (packed_file env) below st))"
        by (rule "4.IH"(2) [OF named full_path_def relative_def True first beside apart(2)])
      with True first show ?thesis
        by (simp add: step(1) fs del: walk_entries.simps)
    next
      case False
      from "4.prems"(1) False obtain beside where
        beside: "walk_files_entries env depth base_path current_path others = Some beside"
        and fs: "fs = (relative, full_path) # beside"
        by (auto simp: step(2) simp del: walk_files_entries.simps split: option.splits)
      from "4.prems"(2) have apart: "\<not> reads_output env f_archive full_path"
        "list_all (\<lambda>rf. \<not> reads_output env f_archive (snd rf)) beside"
        by (simp_all add: fs)
      have packed: "pack_file env f_archive (relative, full_path) st =
                    Some (packed_file env (relative, full_path) st)"
        using apart(1) by (rule pack_file_eq)
      have "walk_entries env depth f_archive base_path current_path others
              (packed_file env (relative, full_path) st) =
            Returns (fold (packed_file env) beside (packed_file env (relative, full_path) st))"
        by (rule "4.IH"(3) [OF named full_path_def relative_def False packed beside apart(2)])
      with False packed show ?thesis
        by (simp add: step(1) fs del: walk_entries.simps)
    qed
  qed
qed

text \<open>
  A walk that starts with something in the output file and returns has read no
  file that is the output file.
\<close>

lemma walk_directory_returns:
  "walk_directory env depth f_archive base_path current_path st = Returns st' \<Longrightarrow>
   archive st \<noteq> [] \<Longrightarrow>
   \<exists>fs. walk_files env depth base_path current_path = Some fs \<and>
        list_all (\<lambda>rf. \<not> reads_output env f_archive (snd rf)) fs"
  and walk_entries_returns:
  "walk_entries env depth f_archive base_path current_path found st = Returns st' \<Longrightarrow>
   archive st \<noteq> [] \<Longrightarrow>
   \<exists>fs. walk_files_entries env depth base_path current_path found = Some fs \<and>
        list_all (\<lambda>rf. \<not> reads_output env f_archive (snd rf)) fs"
proof (induction env depth f_archive base_path current_path st
    and env depth f_archive base_path current_path found st
    arbitrary: st' and st' rule: walk_directory_walk_entries.induct)
  case (1 env f_archive base_path current_path st)
  then show ?case by simp
next
  case (2 env depth f_archive base_path current_path st)
  then show ?case by (auto split: option.splits)
next
  case (3 env depth f_archive base_path current_path st)
  then show ?case by simp
next
  case (4 env depth f_archive base_path current_path cFileName is_dir others st)
  show ?case
  proof (cases "cFileName \<noteq> ''.'' \<and> cFileName \<noteq> ''..''")
    case False
    with 4 show ?thesis by auto
  next
    case named: True
    define full_path where
      "full_path = snprintf (base_path @ [BACKSLASH] @ current_path @ [BACKSLASH] @ cFileName)"
    define relative where
      "relative = snprintf (current_path @ (if length current_path > 0 then [BACKSLASH] else [])
                        @ cFileName)"
    note step = walk_entries_step [OF named full_path_def relative_def]
    show ?thesis
    proof (cases is_dir)
      case True
      from "4.prems"(1) True obtain st1 where
        first: "walk_directory env depth f_archive base_path relative st = Returns st1"
        and rest: "walk_entries env depth f_archive base_path current_path others st1 =
                   Returns st'"
        by (auto simp: step(1) simp del: walk_entries.simps split: run.splits)
      from "4.IH"(1) [OF named full_path_def relative_def True first "4.prems"(2)]
      obtain below where
        below: "walk_files env depth base_path relative = Some below"
        "list_all (\<lambda>rf. \<not> reads_output env f_archive (snd rf)) below"
        by blast
      from walk_directory_files(1) [OF below, of st] first
      have st1: "st1 = fold (packed_file env) below st"
        by simp
      have "archive st1 \<noteq> []"
        unfolding st1 using "4.prems"(2) by (rule archive_fold_packed_file)
      from "4.IH"(2) [OF named full_path_def relative_def True first rest this]
      obtain beside where
        beside: "walk_files_entries env depth base_path current_path others = Some beside"
        "list_all (\<lambda>rf. \<not> reads_output env f_archive (snd rf)) beside"
        by blast
      have "walk_files_entries env depth base_path current_path ((cFileName, is_dir) # others) =
            Some (below @ beside)"
        using True below(1) beside(1) by (simp add: step(2) del: walk_files_entries.simps)
      moreover have "list_all (\<lambda>rf. \<not> reads_output env f_archive (snd rf)) (below @ beside)"
        using below(2) beside(2) by simp
      ultimately show ?thesis by blast
    next
      case False
      from "4.prems"(1) False obtain st1 where
        packed: "pack_file env f_archive (relative, full_path) st = Some st1"
        and rest: "walk_entries env depth f_archive base_path current_path others st1 =
                   Returns st'"
        by (auto simp: step(1) simp del: walk_entries.simps split: option.splits)
      have apart: "\<not> reads_output env f_archive full_path"
      proof
        assume "reads_output env f_archive full_path"
        from pack_file_output [OF this "4.prems"(2)] packed show False by simp
      qed
      with packed have st1: "st1 = packed_file env (relative, full_path) st"
        by (simp add: pack_file_eq)
      have "archive st1 \<noteq> []"
        using "4.prems"(2) by (simp add: st1 packed_file_def)
      from "4.IH"(3) [OF named full_path_def relative_def False packed rest this]
      obtain beside where
        beside: "walk_files_entries env depth base_path current_path others = Some beside"
        "list_all (\<lambda>rf. \<not> reads_output env f_archive (snd rf)) beside"
        by blast
      have "walk_files_entries env depth base_path current_path ((cFileName, is_dir) # others) =
            Some ((relative, full_path) # beside)"
        using False beside(1) by (simp add: step(2) del: walk_files_entries.simps)
      moreover have "list_all (\<lambda>rf. \<not> reads_output env f_archive (snd rf))
                       ((relative, full_path) # beside)"
        using apart beside(2) by simp
      ultimately show ?thesis by blast
    qed
  qed
qed

lemma length_packed_entries [simp]: "length (packed_entries env k pos fs) = length fs"
  by (induction fs arbitrary: k pos) auto

lemma write_manifest_and_footer_layout:
  "write_manifest_and_footer st = archive_layout (archive st) (head st)"
  by (simp add: write_manifest_and_footer_def archive_layout_def Let_def strcpy_def
      MAGIC_BYTES_def)

lemma stub_size_small:
  assumes "length content < 2 ^ 31"
  shows "ftell (length content) = 0 \<longleftrightarrow> content = []"
proof -
  have "(2::nat) ^ 31 \<le> 2 ^ 64" by (rule power_increasing) simp_all
  with assms have "length content < 2 ^ 64" by (rule less_le_trans)
  then have u: "unat (of_nat (length content) :: 64 word) = length content"
    by (rule unat_of_nat_64)
  have "(of_nat (length content) :: 64 word) = 0 \<longleftrightarrow> content = []"
  proof
    assume "(of_nat (length content) :: 64 word) = 0"
    then have "unat (of_nat (length content) :: 64 word) = 0" by simp
    with u show "content = []" by simp
  next
    assume "content = []"
    then show "(of_nat (length content) :: 64 word) = 0" by simp
  qed
  with assms show ?thesis by (simp only: ftell_def if_True)
qed

lemma stub_size:
  "ftell (length content) = 0 \<longleftrightarrow> content = []"
proof (cases "length content < 2 ^ 31")
  case True
  then show ?thesis by (rule stub_size_small)
next
  case False
  have "content \<noteq> []"
  proof
    assume "content = []"
    with False have "\<not> (0::nat) < 2 ^ 31" by simp
    then show False by simp
  qed
  moreover have "ftell (length content) = - 1"
    using False by (simp only: ftell_def if_False)
  ultimately show ?thesis by simp
qed

lemma packer_steps:
  assumes "length argv = 4" and "p_fopen_wb env (argv ! 3)"
  shows "packer env stack argv =
     (case append_file_to_archive env (argv ! 3) ''loader.exe''
             (entry_in_memory (p_stack_entry env))
             \<lparr> archive = [], head = [],
               console = [''Writing loader stub...'' @ [NEWLINE]] \<rparr> of
        None \<Rightarrow> PNeverReturns
      | Some (loader_entry, st1) \<Rightarrow>
          if size_bytes loader_entry = 0 then
            PExit 1 (Some (archive st1))
              (console st1 @
               [''Error: loader.exe not found or is empty. Compile it first.'' @ [NEWLINE]])
          else
            (case walk_directory env stack (argv ! 3) (argv ! 1) [] st1 of
               StackOverflow \<Rightarrow> PUndefined
             | NeverReturns \<Rightarrow> PNeverReturns
             | Returns st2 \<Rightarrow>
                 if length (after_last_backslash (argv ! 2)) \<ge> MAX_PATH then PUndefined
                 else
                   (case pack_main_exe env (argv ! 3) (argv ! 2) st2 of
                      None \<Rightarrow> PNeverReturns
                    | Some st3 \<Rightarrow>
                        PExit 0 (Some (write_manifest_and_footer st3))
                          (console st3 @
                           [[NEWLINE] @ ''Successfully created '' @ argv ! 3 @ [NEWLINE]]))))"
  using assms by (simp only: packer_def Let_def simp_thms if_True if_False)

lemma packer_success:
  assumes "packer env stack argv = PExit 0 (Some file) printed"
  shows "\<exists>fs. length argv = 4 \<and> p_fopen_wb env (argv ! 3) \<and>
              payload env ''loader.exe'' \<noteq> [] \<and>
              walk_files env stack (argv ! 1) [] = Some fs \<and>
              length (after_last_backslash (argv ! 2)) < MAX_PATH \<and>
              list_all (\<lambda>path. \<not> reads_output env (argv ! 3) path)
                (''loader.exe'' # map snd fs @ [argv ! 2]) \<and>
              file = archive_layout (packed_body env (argv ! 2) fs)
                       (packed_manifest env (argv ! 2) fs) \<and>
              printed = lines_of_run env argv fs"
proof -
  from assms have len: "length argv = 4"
    by (simp add: packer_def split: if_splits)
  from assms len have wb: "p_fopen_wb env (argv ! 3)"
    by (simp add: packer_def Let_def split: if_splits)
  define r where "r = append_file_to_archive env (argv ! 3) ''loader.exe''
             (entry_in_memory (p_stack_entry env))
             \<lparr> archive = [], head = [],
               console = [''Writing loader stub...'' @ [NEWLINE]] \<rparr>"
  note steps = packer_steps [OF len wb, of stack, folded r_def]
  from assms obtain loader_entry st1 where r: "r = Some (loader_entry, st1)"
    by (cases r) (auto simp: steps)
  from assms have nz: "size_bytes loader_entry \<noteq> 0"
    by (auto simp: steps r)
  define w where "w = walk_directory env stack (argv ! 3) (argv ! 1) [] st1"
  have after_stub: "packer env stack argv =
      (case w of
         StackOverflow \<Rightarrow> PUndefined
       | NeverReturns \<Rightarrow> PNeverReturns
       | Returns st2 \<Rightarrow>
           if length (after_last_backslash (argv ! 2)) \<ge> MAX_PATH then PUndefined
           else
             (case pack_main_exe env (argv ! 3) (argv ! 2) st2 of
                None \<Rightarrow> PNeverReturns
              | Some st3 \<Rightarrow>
                  PExit 0 (Some (write_manifest_and_footer st3))
                    (console st3 @
                     [[NEWLINE] @ ''Successfully created '' @ argv ! 3 @ [NEWLINE]])))"
    unfolding w_def steps r using nz by simp
  from assms obtain st2 where w: "w = Returns st2"
    by (cases w) (auto simp: after_stub)
  from assms have short: "length (after_last_backslash (argv ! 2)) < MAX_PATH"
    by (auto simp: after_stub w split: if_splits)
  define m where "m = pack_main_exe env (argv ! 3) (argv ! 2) st2"
  have after_walk: "packer env stack argv =
      (case m of
         None \<Rightarrow> PNeverReturns
       | Some st3 \<Rightarrow>
           PExit 0 (Some (write_manifest_and_footer st3))
             (console st3 @
              [[NEWLINE] @ ''Successfully created '' @ argv ! 3 @ [NEWLINE]]))"
    unfolding m_def after_stub w using short by simp
  from assms obtain st3 where m: "m = Some st3"
    by (cases m) (auto simp: after_walk)
  from assms have out: "file = write_manifest_and_footer st3"
    and lines: "printed = console st3 @
                  [[NEWLINE] @ ''Successfully created '' @ argv ! 3 @ [NEWLINE]]"
    by (auto simp: after_walk m)
  note stub = r [unfolded r_def]
  note walk = w [unfolded w_def]
  note exe = m [unfolded m_def]
  have apart0: "\<not> reads_output env (argv ! 3) ''loader.exe''"
  proof
    assume "reads_output env (argv ! 3) ''loader.exe''"
    from stub [unfolded append_file_to_archive_output [OF this]] nz show False
      by (auto split: if_splits)
  qed
  from stub [unfolded append_file_to_archive_eq [OF apart0]]
  have st1: "archive st1 = payload env ''loader.exe''" "head st1 = []"
    "console st1 = [''Writing loader stub...'' @ [NEWLINE]] @ lines_printed env ''loader.exe''"
    and entry: "size_bytes loader_entry =
                  (case fopen_rb env ''loader.exe'' of None \<Rightarrow> 0
                   | Some content \<Rightarrow> ftell (length content))"
    by (auto split: option.splits)
  from entry nz obtain content where
    content: "fopen_rb env ''loader.exe'' = Some content" "content \<noteq> []"
    by (auto simp: stub_size split: option.splits)
  then have stub': "payload env ''loader.exe'' \<noteq> []" "lines_printed env ''loader.exe'' = []"
    by (simp_all add: payload_def lines_printed_def)
  then have full: "archive st1 \<noteq> []"
    by (simp add: st1)
  from walk_directory_returns(1) [OF walk full] obtain fs where
    fs: "walk_files env stack (argv ! 1) [] = Some fs"
    and apart: "list_all (\<lambda>rf. \<not> reads_output env (argv ! 3) (snd rf)) fs"
    by blast
  from walk_directory_files(1) [OF fs apart, of st1] walk
  have st2: "st2 = fold (packed_file env) fs st1"
    by simp
  have full2: "archive st2 \<noteq> []"
    unfolding st2 using full by (rule archive_fold_packed_file)
  have apart2: "\<not> reads_output env (argv ! 3) (argv ! 2)"
  proof
    assume "reads_output env (argv ! 3) (argv ! 2)"
    from pack_main_exe_output [OF this full2] exe show False by simp
  qed
  from exe [unfolded pack_main_exe_eq [OF apart2]] have st3: "st3 =
     \<lparr> archive = archive st2 @ payload env (argv ! 2),
       head = new_entry env (length (head st2)) (length (archive st2))
                (after_last_backslash (argv ! 2)) (argv ! 2) 1 # head st2,
       console = console st2 @ [''Packing main executable: '' @ argv ! 2 @ [NEWLINE]] @
                 lines_printed env (argv ! 2) \<rparr>"
    by simp
  have "file = archive_layout (packed_body env (argv ! 2) fs)
                 (packed_manifest env (argv ! 2) fs)"
    by (simp add: out write_manifest_and_footer_layout st3 st2 fold_packed_file
        st1 packed_body_def packed_manifest_def)
  moreover have "printed = lines_of_run env argv fs"
    by (simp add: lines st3 st2 fold_packed_file st1 stub' lines_of_run_def)
  moreover have "list_all (\<lambda>path. \<not> reads_output env (argv ! 3) path)
                (''loader.exe'' # map snd fs @ [argv ! 2])"
    using apart0 apart apart2 by (simp add: list_all_iff)
  ultimately show ?thesis
    using len wb stub'(1) fs short by blast
qed

lemma new_entry_flag [simp]: "is_executable (new_entry env k pos relative path flag) = flag"
  by (simp add: new_entry_def Let_def split: option.splits)

lemma new_entry_name [simp]:
  "NUL \<notin> set relative \<Longrightarrow>
   c_str (relative_path (new_entry env k pos relative path flag)) = relative"
  by (simp add: new_entry_def Let_def split: option.splits)

lemma new_entry_path_length [simp]:
  "length relative < MAX_PATH \<Longrightarrow>
   length (relative_path (new_entry env k pos relative path flag)) = MAX_PATH"
  by (simp add: new_entry_def Let_def length_strcpy split: option.splits)

lemma new_entry_unopened [simp]:
  "fopen_rb env path = None \<Longrightarrow> size_bytes (new_entry env k pos relative path flag) = 0"
  by (simp add: new_entry_def Let_def)

lemma new_entry_opened:
  "fopen_rb env path = Some content \<Longrightarrow>
   offset (new_entry env k pos relative path flag) = ftell pos \<and>
   size_bytes (new_entry env k pos relative path flag) = ftell (length content)"
  by (simp add: new_entry_def Let_def)

lemma walk_files_short:
  "walk_files env depth base_path current_path = Some fs \<Longrightarrow>
     \<forall>rf \<in> set fs. length (fst rf) < MAX_PATH"
  and walk_files_entries_short:
  "walk_files_entries env depth base_path current_path found = Some fs \<Longrightarrow>
     \<forall>rf \<in> set fs. length (fst rf) < MAX_PATH"
proof (induction env depth base_path current_path and env depth base_path current_path found
    arbitrary: fs and fs rule: walk_files_walk_files_entries.induct)
  case (1 env base_path current_path)
  then show ?case by simp
next
  case (2 env depth base_path current_path)
  then show ?case by (auto split: option.splits)
next
  case (3 env depth base_path current_path)
  then show ?case by simp
next
  case (4 env depth base_path current_path cFileName is_dir others)
  show ?case
  proof (cases "cFileName \<noteq> ''.'' \<and> cFileName \<noteq> ''..''")
    case False
    with 4 show ?thesis by auto
  next
    case True
    show ?thesis
    proof (cases is_dir)
      case True
      with 4 \<open>cFileName \<noteq> ''.'' \<and> cFileName \<noteq> ''..''\<close> show ?thesis
        by (fastforce simp: Let_def split: option.splits)
    next
      case False
      with 4 \<open>cFileName \<noteq> ''.'' \<and> cFileName \<noteq> ''..''\<close> show ?thesis
        by (fastforce simp: Let_def split: option.splits)
    qed
  qed
qed

lemma packed_entries_flags:
  "e \<in> set (packed_entries env k pos fs) \<Longrightarrow> is_executable e = 0"
  by (induction fs arbitrary: k pos) auto

lemma packed_entries_names:
  "\<forall>rf \<in> set fs. NUL \<notin> set (fst rf) \<Longrightarrow>
   map (\<lambda>e. c_str (relative_path e)) (packed_entries env k pos fs) = map fst fs"
  by (induction fs arbitrary: k pos) auto

lemma packed_entries_path_lengths:
  "\<forall>rf \<in> set fs. length (fst rf) < MAX_PATH \<Longrightarrow>
   e \<in> set (packed_entries env k pos fs) \<Longrightarrow> length (relative_path e) = MAX_PATH"
  by (induction fs arbitrary: k pos) auto

lemma packer_run:
  assumes "length argv = 4" and "p_fopen_wb env (argv ! 3)"
    and "payload env ''loader.exe'' \<noteq> []"
    and "walk_files env stack (argv ! 1) [] = Some fs"
    and "length (after_last_backslash (argv ! 2)) < MAX_PATH"
    and "list_all (\<lambda>path. \<not> reads_output env (argv ! 3) path)
           (''loader.exe'' # map snd fs @ [argv ! 2])"
  shows "packer env stack argv =
         PExit 0 (Some (archive_layout (packed_body env (argv ! 2) fs)
                          (packed_manifest env (argv ! 2) fs)))
           (lines_of_run env argv fs)"
proof -
  obtain content where content: "fopen_rb env ''loader.exe'' = Some content" "content \<noteq> []"
    using assms(3) by (auto simp: payload_def split: option.splits)
  have nz: "ftell (length content) \<noteq> 0"
    using content(2) by (simp add: stub_size)
  have stub: "payload env ''loader.exe'' = content" "lines_printed env ''loader.exe'' = []"
    using content by (simp_all add: payload_def lines_printed_def)
  have apart0: "\<not> reads_output env (argv ! 3) ''loader.exe''"
    and apart2: "\<not> reads_output env (argv ! 3) (argv ! 2)"
    and apart: "list_all (\<lambda>rf. \<not> reads_output env (argv ! 3) (snd rf)) fs"
    using assms(6) by (simp_all add: list_all_iff)
  define st1 where "st1 = \<lparr> archive = content, head = [],
                            console = [''Writing loader stub...'' @ [NEWLINE]] \<rparr>"
  define loader_entry where "loader_entry = (entry_in_memory (p_stack_entry env))
                       \<lparr>offset := ftell 0, size_bytes := ftell (length content)\<rparr>"
  have first: "append_file_to_archive env (argv ! 3) ''loader.exe''
                 (entry_in_memory (p_stack_entry env))
                 \<lparr> archive = [], head = [],
                   console = [''Writing loader stub...'' @ [NEWLINE]] \<rparr> =
               Some (loader_entry, st1)"
    by (simp add: append_file_to_archive_eq [OF apart0] content(1) stub st1_def
        loader_entry_def)
  have walk: "walk_directory env stack (argv ! 3) (argv ! 1) [] st1 =
              Returns (fold (packed_file env) fs st1)"
    using assms(4) apart by (rule walk_directory_files(1))
  have nz': "size_bytes loader_entry \<noteq> 0"
    using nz by (simp add: loader_entry_def)
  have short: "\<not> length (after_last_backslash (argv ! 2)) \<ge> MAX_PATH"
    using assms(5) by simp
  show ?thesis
    by (simp only: packer_steps [OF assms(1,2)] first option.case prod.case nz' if_False
          walk run.case short pack_main_exe_eq [OF apart2])
       (simp add: write_manifest_and_footer_layout fold_packed_file st1_def stub
          packed_body_def packed_manifest_def lines_of_run_def)
qed

lemma packed_manifest_flagged:
  "filter (\<lambda>e. is_executable e \<noteq> 0) (packed_manifest env main_exe fs) =
   [hd (packed_manifest env main_exe fs)]"
proof -
  have "filter (\<lambda>e. is_executable e \<noteq> 0) (rev (packed_entries env k pos fs)) = []" for k pos
    by (auto simp: filter_empty_conv dest: packed_entries_flags)
  then show ?thesis by (simp add: packed_manifest_def)
qed

lemma packed_manifest_names:
  assumes "\<forall>rf \<in> set fs. NUL \<notin> set (fst rf)" and "NUL \<notin> set main_exe"
  shows "map (\<lambda>e. c_str (relative_path e)) (packed_manifest env main_exe fs) =
         after_last_backslash main_exe # rev (map fst fs)"
proof -
  have "NUL \<notin> set (after_last_backslash main_exe)"
    using assms(2) after_last_backslash_subset by blast
  then show ?thesis
    using assms(1) by (simp add: packed_manifest_def rev_map [symmetric] packed_entries_names)
qed

lemma packed_manifest_path_lengths:
  assumes "\<forall>rf \<in> set fs. length (fst rf) < MAX_PATH"
    and "length (after_last_backslash main_exe) < MAX_PATH"
    and "e \<in> set (packed_manifest env main_exe fs)"
  shows "length (relative_path e) = MAX_PATH"
  using assms by (auto simp: packed_manifest_def dest: packed_entries_path_lengths)

lemma packed_entries_nth:
  "i < length fs \<Longrightarrow>
   packed_entries env k pos fs ! i =
     new_entry env (k + i)
       (pos + length (concat (map (\<lambda>rf. payload env (snd rf)) (take i fs))))
       (fst (fs ! i)) (snd (fs ! i)) 0"
proof (induction fs arbitrary: i k pos)
  case Nil
  then show ?case by simp
next
  case (Cons rf fs)
  obtain relative path where rf: "rf = (relative, path)" by (cases rf)
  show ?case
  proof (cases i)
    case 0
    then show ?thesis by (simp add: rf)
  next
    case (Suc j)
    with Cons.prems have "j < length fs" by simp
    from Cons.IH [OF this] show ?thesis by (simp add: rf Suc add.assoc)
  qed
qed

lemma packed_entries_member:
  assumes "(relative, path) \<in> set fs"
  shows "\<exists>k' pos'. new_entry env k' pos' relative path 0 \<in> set (packed_entries env k pos fs)"
proof -
  from assms obtain i where i: "i < length fs" "fs ! i = (relative, path)"
    by (auto simp: in_set_conv_nth)
  then have "packed_entries env k pos fs ! i \<in> set (packed_entries env k pos fs)"
    by simp
  with i show ?thesis by (auto simp: packed_entries_nth)
qed

lemma warning_printed:
  assumes "(relative, path) \<in> set fs" and "fopen_rb env path = None"
  shows "(''Warning: Could not open file '' @ path @ [NEWLINE]) \<in> set (lines_of_run env argv fs)"
proof -
  have "(''Warning: Could not open file '' @ path @ [NEWLINE]) \<in> set (lines_printed env path)"
    using assms(2) by (simp add: lines_printed_def)
  then have "(''Warning: Could not open file '' @ path @ [NEWLINE]) \<in>
        set (concat (map (\<lambda>rf. [''Packing: '' @ fst rf @ [NEWLINE]] @ lines_printed env (snd rf)) fs))"
  proof -
    have "set (lines_printed env path) \<subseteq>
          set ([''Packing: '' @ fst (relative, path) @ [NEWLINE]] @
               lines_printed env (snd (relative, path)))"
      by auto
    also have "\<dots> \<subseteq> (\<Union>rf \<in> set fs.
          set ([''Packing: '' @ fst rf @ [NEWLINE]] @ lines_printed env (snd rf)))"
      using assms(1) by blast
    finally show ?thesis
      using \<open>(''Warning: Could not open file '' @ path @ [NEWLINE]) \<in> set (lines_printed env path)\<close>
      by (auto simp del: append.simps set_append)
  qed
  then show ?thesis by (simp add: lines_of_run_def)
qed

text \<open>
  When the walk reaches the output file, the copy loop reads what it writes and the
  packer does not return.
\<close>

lemma walk_directory_listed:
  "walk_files env depth base_path current_path = Some fs \<Longrightarrow>
   walk_directory env depth f_archive base_path current_path st \<noteq> StackOverflow"
  and walk_entries_listed:
  "walk_files_entries env depth base_path current_path found = Some fs \<Longrightarrow>
   walk_entries env depth f_archive base_path current_path found st \<noteq> StackOverflow"
proof (induction env depth f_archive base_path current_path st
    and env depth f_archive base_path current_path found st
    arbitrary: fs and fs rule: walk_directory_walk_entries.induct)
  case (1 env f_archive base_path current_path st)
  then show ?case by simp
next
  case (2 env depth f_archive base_path current_path st)
  then show ?case by (auto split: option.splits)
next
  case (3 env depth f_archive base_path current_path st)
  then show ?case by simp
next
  case (4 env depth f_archive base_path current_path cFileName is_dir others st)
  show ?case
  proof (cases "cFileName \<noteq> ''.'' \<and> cFileName \<noteq> ''..''")
    case False
    with 4 show ?thesis by auto
  next
    case named: True
    define full_path where
      "full_path = snprintf (base_path @ [BACKSLASH] @ current_path @ [BACKSLASH] @ cFileName)"
    define relative where
      "relative = snprintf (current_path @ (if length current_path > 0 then [BACKSLASH] else [])
                        @ cFileName)"
    note step = walk_entries_step [OF named full_path_def relative_def]
    show ?thesis
    proof (cases is_dir)
      case True
      from "4.prems"(1) True obtain below beside where
        below: "walk_files env depth base_path relative = Some below"
        and beside: "walk_files_entries env depth base_path current_path others = Some beside"
        by (auto simp: step(2) simp del: walk_files_entries.simps split: option.splits)
      have first: "walk_directory env depth f_archive base_path relative st \<noteq> StackOverflow"
        by (rule "4.IH"(1) [OF named full_path_def relative_def True below])
      show ?thesis
      proof (cases "walk_directory env depth f_archive base_path relative st")
        case (Returns st1)
        from "4.IH"(2) [OF named full_path_def relative_def True Returns beside]
        show ?thesis
          using True Returns by (simp add: step(1) del: walk_entries.simps)
      next
        case StackOverflow
        with first show ?thesis by simp
      next
        case NeverReturns
        with True show ?thesis by (simp add: step(1) del: walk_entries.simps)
      qed
    next
      case False
      from "4.prems"(1) False obtain beside where
        beside: "walk_files_entries env depth base_path current_path others = Some beside"
        by (auto simp: step(2) simp del: walk_files_entries.simps split: option.splits)
      show ?thesis
      proof (cases "pack_file env f_archive (relative, full_path) st")
        case None
        with False show ?thesis by (simp add: step(1) del: walk_entries.simps)
      next
        case (Some st1)
        from "4.IH"(3) [OF named full_path_def relative_def False Some beside]
        show ?thesis
          using False Some by (simp add: step(1) del: walk_entries.simps)
      qed
    qed
  qed
qed

lemma walk_directory_never_returns:
  assumes "walk_files env depth base_path current_path = Some fs"
    and "(relative, path) \<in> set fs" and "reads_output env f_archive path"
    and "archive st \<noteq> []"
  shows "walk_directory env depth f_archive base_path current_path st = NeverReturns"
proof (cases "walk_directory env depth f_archive base_path current_path st")
  case (Returns st')
  from walk_directory_returns(1) [OF Returns assms(4)] assms(1)
  have "list_all (\<lambda>rf. \<not> reads_output env f_archive (snd rf)) fs"
    by auto
  with assms(2,3) show ?thesis
    by (auto simp: list_all_iff)
next
  case StackOverflow
  with walk_directory_listed(1) [OF assms(1)] show ?thesis by blast
next
  case NeverReturns
  then show ?thesis .
qed

lemma packer_output_in_directory:
  assumes "length argv = 4" and "p_fopen_wb env (argv ! 3)"
    and "payload env ''loader.exe'' \<noteq> []"
    and "\<not> reads_output env (argv ! 3) ''loader.exe''"
    and "walk_files env stack (argv ! 1) [] = Some fs"
    and "(relative, path) \<in> set fs" and "reads_output env (argv ! 3) path"
  shows "packer env stack argv = PNeverReturns"
proof -
  obtain content where content: "fopen_rb env ''loader.exe'' = Some content" "content \<noteq> []"
    using assms(3) by (auto simp: payload_def split: option.splits)
  have stub: "payload env ''loader.exe'' = content" "lines_printed env ''loader.exe'' = []"
    using content by (simp_all add: payload_def lines_printed_def)
  define st1 where "st1 = \<lparr> archive = content, head = [],
                            console = [''Writing loader stub...'' @ [NEWLINE]] \<rparr>"
  define loader_entry where "loader_entry = (entry_in_memory (p_stack_entry env))
                       \<lparr>offset := ftell 0, size_bytes := ftell (length content)\<rparr>"
  have first: "append_file_to_archive env (argv ! 3) ''loader.exe''
                 (entry_in_memory (p_stack_entry env))
                 \<lparr> archive = [], head = [],
                   console = [''Writing loader stub...'' @ [NEWLINE]] \<rparr> =
               Some (loader_entry, st1)"
    by (simp add: append_file_to_archive_eq [OF assms(4)] content(1) stub st1_def
        loader_entry_def)
  have nz: "size_bytes loader_entry \<noteq> 0"
    using content(2) by (simp add: loader_entry_def stub_size)
  have "archive st1 \<noteq> []"
    using content(2) by (simp add: st1_def)
  with assms(5-7) have
    walk: "walk_directory env stack (argv ! 3) (argv ! 1) [] st1 = NeverReturns"
    by (rule walk_directory_never_returns)
  show ?thesis
    by (simp only: packer_steps [OF assms(1,2)] first option.case prod.case nz if_False
          walk run.case)
qed

text \<open>
  In an archive that the packer has made, one entry is flagged, and its path is the
  part of \<open>argv[2]\<close> behind the last backslash.
\<close>

lemma flagged_entry_after_last_backslash:
  assumes "packer env stack argv = PExit 0 (Some file) printed"
    and "NUL \<notin> set (argv ! 2)"
  shows "\<exists>body entries.
           file = archive_layout body entries \<and>
           (\<forall>e \<in> set entries. length (relative_path e) = MAX_PATH) \<and>
           length (filter (\<lambda>e. is_executable e \<noteq> 0) entries) = 1 \<and>
           (\<forall>e \<in> set entries. is_executable e \<noteq> 0 \<longrightarrow>
              c_str (relative_path e) = after_last_backslash (argv ! 2)) \<and>
           BACKSLASH \<notin> set (after_last_backslash (argv ! 2)) \<and>
           (\<exists>dir. argv ! 2 = dir @ after_last_backslash (argv ! 2) \<and>
                  (dir = [] \<or> last dir = BACKSLASH))"
proof -
  from packer_success [OF assms(1)] obtain fs where
    fs: "walk_files env stack (argv ! 1) [] = Some fs"
    and short: "length (after_last_backslash (argv ! 2)) < MAX_PATH"
    and out: "file = archive_layout (packed_body env (argv ! 2) fs)
                        (packed_manifest env (argv ! 2) fs)"
    by blast
  let ?es = "packed_manifest env (argv ! 2) fs"
  have lens: "\<forall>e \<in> set ?es. length (relative_path e) = MAX_PATH"
    using packed_manifest_path_lengths [OF walk_files_short [OF fs] short] by blast
  have one: "length (filter (\<lambda>e. is_executable e \<noteq> 0) ?es) = 1"
    by (simp add: packed_manifest_flagged)
  have nul: "NUL \<notin> set (after_last_backslash (argv ! 2))"
    using assms(2) after_last_backslash_subset by blast
  have name: "\<forall>e \<in> set ?es. is_executable e \<noteq> 0 \<longrightarrow>
                c_str (relative_path e) = after_last_backslash (argv ! 2)"
    using nul by (auto simp: packed_manifest_def dest: packed_entries_flags)
  from out lens one name after_last_backslash_free after_last_backslash_suffix
  show ?thesis by blast
qed

section \<open>Facts about the examples\<close>

lemma example_walk:
  "walk_files (example_host locked) (Suc (Suc 0)) ''Dir'' [] = Some example_files"
  by (simp add: example_host_def example_files_def snprintf_def MAX_PATH_def)

lemma example_payloads:
  "payload (example_host (\<lambda>p. False)) ''loader.exe'' = [0x4D, 0x5A, 0x90]"
  "payload (example_host (\<lambda>p. False)) (''Dir'' @ [BACKSLASH, BACKSLASH] @ ''a.txt'') = [0x41]"
  "payload (example_host (\<lambda>p. False))
     (''Dir'' @ [BACKSLASH] @ ''Content'' @ [BACKSLASH] @ ''readme.txt'') = map byte_of_char ''hello''"
  "payload (example_host (\<lambda>p. False)) ''Game.exe'' = [0x4D, 0x5A]"
  by (simp_all add: payload_def fopen_rb_def example_host_def)

lemma example_body: "packed_body (example_host (\<lambda>p. False)) ''Game.exe'' example_files = example_body"
  by (simp add: packed_body_def example_files_def example_payloads [simplified] example_body_def)

lemma example_manifest:
  "packed_manifest (example_host (\<lambda>p. False)) ''Game.exe'' example_files = example_manifest"
proof -
  have m: "p_malloc_node (example_host (\<lambda>p. False)) k = (\<lambda>i. 0)" for k
    by (simp add: example_host_def)
  have o: "fopen_rb (example_host (\<lambda>p. False)) ''Game.exe'' = Some [0x4D, 0x5A]"
    "fopen_rb (example_host (\<lambda>p. False)) (''Dir'' @ [BACKSLASH, BACKSLASH] @ ''a.txt'') = Some [0x41]"
    "fopen_rb (example_host (\<lambda>p. False))
     (''Dir'' @ [BACKSLASH] @ ''Content'' @ [BACKSLASH] @ ''readme.txt'') = Some (map byte_of_char ''hello'')"
    by (simp_all add: fopen_rb_def example_host_def)
  have a: "after_last_backslash ''Game.exe'' = ''Game.exe''"
    by (simp add: after_last_backslash_def)
  show ?thesis
    by (simp add: packed_manifest_def example_files_def example_payloads [simplified]
        new_entry_def m zeroed_entry o [simplified] a strcpy_zeroed [unfolded MAX_PATH_def]
        MAX_PATH_def ftell_def example_manifest_def Let_def)
qed

lemma example_apart:
  "list_all (\<lambda>path. \<not> reads_output (example_host locked) (example_argv ! 3) path)
     (''loader.exe'' # map snd example_files @ [example_argv ! 2])"
  by (simp add: reads_output_def same_name_def example_host_def example_argv_def
      example_files_def)

lemma example_run:
  "packer (example_host (\<lambda>p. False)) (Suc (Suc 0)) example_argv =
     PExit 0 (Some example_archive)
       (lines_of_run (example_host (\<lambda>p. False)) example_argv example_files)"
proof -
  have "packer (example_host (\<lambda>p. False)) (Suc (Suc 0)) example_argv =
     PExit 0 (Some (archive_layout
        (packed_body (example_host (\<lambda>p. False)) (example_argv ! 2) example_files)
        (packed_manifest (example_host (\<lambda>p. False)) (example_argv ! 2) example_files)))
       (lines_of_run (example_host (\<lambda>p. False)) example_argv example_files)"
  proof (rule packer_run)
    show "length example_argv = 4" by (simp add: example_argv_def)
    show "p_fopen_wb (example_host (\<lambda>p. False)) (example_argv ! 3)"
      by (simp add: example_host_def)
    show "payload (example_host (\<lambda>p. False)) ''loader.exe'' \<noteq> []"
      by (simp add: example_payloads)
    show "walk_files (example_host (\<lambda>p. False)) (Suc (Suc 0)) (example_argv ! 1) [] =
          Some example_files"
    proof -
      have "example_argv ! 1 = ''Dir''" by (simp add: example_argv_def)
      then show ?thesis by (simp only: example_walk)
    qed
    show "length (after_last_backslash (example_argv ! 2)) < MAX_PATH"
      by (simp add: example_argv_def after_last_backslash_def MAX_PATH_def)
  qed (rule example_apart)
  moreover have "example_argv ! 2 = ''Game.exe''" by (simp add: example_argv_def)
  ultimately show ?thesis
    by (simp add: example_body example_manifest example_archive_def)
qed

lemma example_archive_small: "length example_archive < 2 ^ 31"
  by (simp add: example_archive_def archive_layout_def example_body_def example_manifest_def
      MAX_PATH_def MAGIC_BYTES_def)

lemma example_manifest_lengths:
  "\<forall>e \<in> set example_manifest. length (relative_path e) = MAX_PATH"
  by (simp add: example_manifest_def MAX_PATH_def)

lemma example_manifest_read:
  "loader_manifest env example_archive = example_manifest"
  unfolding example_archive_def
  using example_archive_small example_manifest_lengths
  by (intro loader_manifest_layout) (simp_all add: example_archive_def)

lemma example_names:
  "map entry_name example_manifest =
     [''Game.exe'', ''Content'' @ [BACKSLASH] @ ''readme.txt'', ''a.txt'']"
  by (simp add: example_manifest_def entry_name_def)

lemma locked_run:
  "packer (example_host readme_locked) (Suc (Suc 0)) example_argv =
     PExit 0 (Some locked_archive)
       (lines_of_run (example_host readme_locked) example_argv example_files)"
proof -
  have o: "fopen_rb (example_host readme_locked) ''loader.exe'' = Some [0x4D, 0x5A, 0x90]"
    "fopen_rb (example_host readme_locked) ''Game.exe'' = Some [0x4D, 0x5A]"
    "fopen_rb (example_host readme_locked) (''Dir'' @ [BACKSLASH, BACKSLASH] @ ''a.txt'') = Some [0x41]"
    "fopen_rb (example_host readme_locked)
     (''Dir'' @ [BACKSLASH] @ ''Content'' @ [BACKSLASH] @ ''readme.txt'') = None"
    by (simp_all add: fopen_rb_def example_host_def readme_locked_def)
  have m: "p_malloc_node (example_host readme_locked) k = (\<lambda>i. 0)" for k
    by (simp add: example_host_def)
  have a: "after_last_backslash ''Game.exe'' = ''Game.exe''"
    by (simp add: after_last_backslash_def)
  have arg: "example_argv ! 2 = ''Game.exe''" "example_argv ! 1 = ''Dir''"
    by (simp_all add: example_argv_def)
  have body: "packed_body (example_host readme_locked) ''Game.exe'' example_files = locked_body"
    by (simp add: packed_body_def example_files_def payload_def o [simplified] locked_body_def)
  have manifest: "packed_manifest (example_host readme_locked) ''Game.exe'' example_files =
                  locked_manifest"
    by (simp add: packed_manifest_def example_files_def payload_def
        new_entry_def m zeroed_entry o [simplified] a strcpy_zeroed [unfolded MAX_PATH_def]
        MAX_PATH_def ftell_def locked_manifest_def Let_def)
  have "packer (example_host readme_locked) (Suc (Suc 0)) example_argv =
     PExit 0 (Some (archive_layout
        (packed_body (example_host readme_locked) (example_argv ! 2) example_files)
        (packed_manifest (example_host readme_locked) (example_argv ! 2) example_files)))
       (lines_of_run (example_host readme_locked) example_argv example_files)"
  proof (rule packer_run)
    show "length example_argv = 4" by (simp add: example_argv_def)
    show "p_fopen_wb (example_host readme_locked) (example_argv ! 3)"
      by (simp add: example_host_def)
    show "payload (example_host readme_locked) ''loader.exe'' \<noteq> []"
      by (simp add: payload_def o)
    show "walk_files (example_host readme_locked) (Suc (Suc 0)) (example_argv ! 1) [] =
          Some example_files"
      by (simp only: arg example_walk)
    show "length (after_last_backslash (example_argv ! 2)) < MAX_PATH"
      by (simp add: arg a MAX_PATH_def)
  qed (rule example_apart)
  then show ?thesis
    by (simp add: arg body manifest locked_archive_def)
qed

lemma slash_run:
  "packer slash_host (Suc (Suc 0)) slash_argv =
     PExit 0 (Some slash_archive) (lines_of_run slash_host slash_argv example_files)"
proof -
  have o: "fopen_rb slash_host ''loader.exe'' = Some [0x4D, 0x5A, 0x90]"
    "fopen_rb slash_host ''Bin/Game.exe'' = Some [0x4D, 0x5A]"
    "fopen_rb slash_host (''Dir'' @ [BACKSLASH, BACKSLASH] @ ''a.txt'') = Some [0x41]"
    "fopen_rb slash_host
     (''Dir'' @ [BACKSLASH] @ ''Content'' @ [BACKSLASH] @ ''readme.txt'') =
       Some (map byte_of_char ''hello'')"
    by (simp_all add: fopen_rb_def slash_host_def example_host_def)
  have m: "p_malloc_node slash_host k = (\<lambda>i. 0)" for k
    by (simp add: slash_host_def example_host_def)
  have a: "after_last_backslash ''Bin/Game.exe'' = ''Bin/Game.exe''"
    by (simp add: after_last_backslash_def)
  have arg: "slash_argv ! 2 = ''Bin/Game.exe''" "slash_argv ! 1 = ''Dir''"
    by (simp_all add: slash_argv_def)
  have walk: "walk_files slash_host (Suc (Suc 0)) ''Dir'' [] = Some example_files"
    by (simp add: slash_host_def example_host_def example_files_def snprintf_def MAX_PATH_def)
  have body: "packed_body slash_host ''Bin/Game.exe'' example_files = example_body"
    by (simp add: packed_body_def example_files_def payload_def o [simplified] example_body_def)
  have manifest: "packed_manifest slash_host ''Bin/Game.exe'' example_files = slash_manifest"
    by (simp add: packed_manifest_def example_files_def payload_def
        new_entry_def m zeroed_entry o [simplified] a strcpy_zeroed [unfolded MAX_PATH_def]
        MAX_PATH_def ftell_def slash_manifest_def Let_def)
  have "packer slash_host (Suc (Suc 0)) slash_argv =
     PExit 0 (Some (archive_layout
        (packed_body slash_host (slash_argv ! 2) example_files)
        (packed_manifest slash_host (slash_argv ! 2) example_files)))
       (lines_of_run slash_host slash_argv example_files)"
  proof (rule packer_run)
    show "length slash_argv = 4" by (simp add: slash_argv_def)
    show "p_fopen_wb slash_host (slash_argv ! 3)"
      by (simp add: slash_host_def example_host_def)
    show "payload slash_host ''loader.exe'' \<noteq> []"
      by (simp add: payload_def o)
    show "walk_files slash_host (Suc (Suc 0)) (slash_argv ! 1) [] = Some example_files"
      by (simp only: arg walk)
    show "length (after_last_backslash (slash_argv ! 2)) < MAX_PATH"
      by (simp add: arg a MAX_PATH_def)
    show "list_all (\<lambda>path. \<not> reads_output slash_host (slash_argv ! 3) path)
            (''loader.exe'' # map snd example_files @ [slash_argv ! 2])"
      by (simp add: reads_output_def same_name_def slash_host_def example_host_def
          slash_argv_def example_files_def)
  qed
  then show ?thesis
    by (simp add: arg body manifest slash_archive_def)
qed

lemma inside_run: "packer inside_host (Suc (Suc 0)) inside_argv = PNeverReturns"
proof (rule packer_output_in_directory)
  show "length inside_argv = 4" by (simp add: inside_argv_def)
  show "p_fopen_wb inside_host (inside_argv ! 3)"
    by (simp add: inside_host_def example_host_def)
  show "payload inside_host ''loader.exe'' \<noteq> []"
    by (simp add: payload_def fopen_rb_def inside_host_def example_host_def)
  show "\<not> reads_output inside_host (inside_argv ! 3) ''loader.exe''"
    by (simp add: reads_output_def same_name_def inside_host_def example_host_def
        inside_argv_def)
  show "walk_files inside_host (Suc (Suc 0)) (inside_argv ! 1) [] =
        Some [(''a.txt'', ''Dir'' @ [BACKSLASH, BACKSLASH] @ ''a.txt''),
              (''Out.exe'', ''Dir'' @ [BACKSLASH, BACKSLASH] @ ''Out.exe''),
              (''Content'' @ [BACKSLASH] @ ''readme.txt'',
               ''Dir'' @ [BACKSLASH] @ ''Content'' @ [BACKSLASH] @ ''readme.txt'')]"
    by (simp add: inside_host_def example_host_def inside_argv_def snprintf_def MAX_PATH_def)
  show "(''Out.exe'', ''Dir'' @ [BACKSLASH, BACKSLASH] @ ''Out.exe'') \<in>
        set [(''a.txt'', ''Dir'' @ [BACKSLASH, BACKSLASH] @ ''a.txt''),
              (''Out.exe'', ''Dir'' @ [BACKSLASH, BACKSLASH] @ ''Out.exe''),
              (''Content'' @ [BACKSLASH] @ ''readme.txt'',
               ''Dir'' @ [BACKSLASH] @ ''Content'' @ [BACKSLASH] @ ''readme.txt'')]"
    by simp
  show "reads_output inside_host (inside_argv ! 3)
          (''Dir'' @ [BACKSLASH, BACKSLASH] @ ''Out.exe'')"
    by (simp add: reads_output_def same_name_def inside_host_def example_host_def
        inside_argv_def)
qed

section \<open>The manifest a packed archive carries\<close>

text \<open>
  Claim C8, as the code has it. The packer writes the entry count and then the
  entries from the head of its list, and every new node goes to the head: the entry
  of the main executable comes first, then the entries of the files in the reverse
  of the order in which the walk reached them.
\<close>

theorem manifest_written_newest_first:
  assumes "packer env stack argv = PExit 0 (Some file) printed"
    and "walk_files env stack (argv ! 1) [] = Some fs"
    and "NUL \<notin> set (concat (map fst fs))"
    and "NUL \<notin> set (argv ! 2)"
  shows "\<exists>body entries.
           file = body @ le64 (of_nat (length entries)) @ concat (map entry_bytes entries) @
                  footer_bytes \<lparr> manifest_offset = ftell (length body),
                                 magic = MAGIC_BYTES @ [NUL] \<rparr> \<and>
           map (\<lambda>e. c_str (relative_path e)) entries =
             after_last_backslash (argv ! 2) # rev (map fst fs)"
proof -
  from packer_success [OF assms(1)] assms(2)
  have out: "file = archive_layout (packed_body env (argv ! 2) fs)
                 (packed_manifest env (argv ! 2) fs)"
    by auto
  have "\<forall>rf \<in> set fs. NUL \<notin> set (fst rf)"
    using assms(3) by auto
  then have names: "map (\<lambda>e. c_str (relative_path e)) (packed_manifest env (argv ! 2) fs) =
                    after_last_backslash (argv ! 2) # rev (map fst fs)"
    using assms(4) by (rule packed_manifest_names)
  show ?thesis
  proof (intro exI conjI)
    show "file = packed_body env (argv ! 2) fs @
            le64 (of_nat (length (packed_manifest env (argv ! 2) fs))) @
            concat (map entry_bytes (packed_manifest env (argv ! 2) fs)) @
            footer_bytes \<lparr> manifest_offset = ftell (length (packed_body env (argv ! 2) fs)),
                           magic = MAGIC_BYTES @ [NUL] \<rparr>"
      using out by (simp only: archive_layout_def)
    show "map (\<lambda>e. c_str (relative_path e)) (packed_manifest env (argv ! 2) fs) =
          after_last_backslash (argv ! 2) # rev (map fst fs)"
      by (rule names)
  qed
qed

theorem manifest_written_newest_first_example:
  "packer (example_host (\<lambda>p. False)) (Suc (Suc 0)) example_argv =
     PExit 0 (Some example_archive)
       (lines_of_run (example_host (\<lambda>p. False)) example_argv example_files) \<and>
   walk_files (example_host (\<lambda>p. False)) (Suc (Suc 0)) (example_argv ! 1) [] =
     Some example_files \<and>
   NUL \<notin> set (concat (map fst example_files)) \<and>
   NUL \<notin> set (example_argv ! 2) \<and>
   (\<exists>body entries.
      example_archive =
        body @ le64 (of_nat (length entries)) @ concat (map entry_bytes entries) @
        footer_bytes \<lparr> manifest_offset = ftell (length body),
                       magic = MAGIC_BYTES @ [NUL] \<rparr> \<and>
      map (\<lambda>e. c_str (relative_path e)) entries =
        after_last_backslash (example_argv ! 2) # rev (map fst example_files))"
proof -
  have dir: "example_argv ! 1 = ''Dir''"
    by (simp add: example_argv_def)
  have walk: "walk_files (example_host (\<lambda>p. False)) (Suc (Suc 0)) (example_argv ! 1) [] =
     Some example_files"
    by (simp only: dir example_walk)
  have names: "NUL \<notin> set (concat (map fst example_files))"
    by (simp add: example_files_def)
  have nul: "NUL \<notin> set (example_argv ! 2)"
    by (simp add: example_argv_def)
  show ?thesis
    using manifest_written_newest_first [OF example_run walk names nul] example_run walk names nul
    by (intro conjI)
qed

text \<open>
  Claim C8 as stated has the entries in the order they were produced, the main
  executable last. On the example host the walk reaches \<^verbatim>\<open>a.txt\<close> and then
  \<^verbatim>\<open>Content\readme.txt\<close>, and the manifest read back from the archive lists
  \<^verbatim>\<open>Game.exe\<close>, \<^verbatim>\<open>Content\readme.txt\<close>, \<^verbatim>\<open>a.txt\<close>.
\<close>

theorem manifest_not_in_production_order:
  "packer (example_host (\<lambda>p. False)) (Suc (Suc 0)) example_argv =
     PExit 0 (Some example_archive)
       (lines_of_run (example_host (\<lambda>p. False)) example_argv example_files) \<and>
   walk_files (example_host (\<lambda>p. False)) (Suc (Suc 0)) (example_argv ! 1) [] =
     Some example_files \<and>
   map entry_name (loader_manifest (quiet_loader_env example_archive) example_archive) =
     [''Game.exe'', ''Content'' @ [BACKSLASH] @ ''readme.txt'', ''a.txt''] \<and>
   map entry_name (loader_manifest (quiet_loader_env example_archive) example_archive) \<noteq>
     map fst example_files @ [after_last_backslash (example_argv ! 2)]"
proof -
  have dir: "example_argv ! 1 = ''Dir''"
    by (simp add: example_argv_def)
  have walk: "walk_files (example_host (\<lambda>p. False)) (Suc (Suc 0)) (example_argv ! 1) [] =
     Some example_files"
    by (simp only: dir example_walk)
  have read: "map entry_name (loader_manifest (quiet_loader_env example_archive) example_archive) =
     [''Game.exe'', ''Content'' @ [BACKSLASH] @ ''readme.txt'', ''a.txt'']"
    by (simp only: example_manifest_read example_names)
  have differ: "map entry_name (loader_manifest (quiet_loader_env example_archive) example_archive) \<noteq>
     map fst example_files @ [after_last_backslash (example_argv ! 2)]"
    by (simp add: read example_files_def)
  show ?thesis
    using example_run walk read differ by (intro conjI)
qed

text \<open>
  Claim C9. The files that get a manifest entry are those the walk reaches and the
  main executable. Let the output file be created, the loader stub be read, the
  walk stay within the stack, the name of the main executable fit its field, and
  let no file that is read be the output file itself. When one of the files with an
  entry cannot be opened, the packer prints the warning for it, still returns 0,
  and the archive has an entry of size 0 under the file's path; the manifest names
  every file the walk reached and the main executable, and the body holds the
  loader stub and what could be read of every file.
\<close>

theorem unopened_file_packed_empty:
  assumes "length argv = 4" and "p_fopen_wb env (argv ! 3)"
    and "payload env ''loader.exe'' \<noteq> []"
    and "walk_files env stack (argv ! 1) [] = Some fs"
    and "length (after_last_backslash (argv ! 2)) < MAX_PATH"
    and "list_all (\<lambda>path. \<not> reads_output env (argv ! 3) path)
           (''loader.exe'' # map snd fs @ [argv ! 2])"
    and "(relative, path) \<in> set (fs @ [(after_last_backslash (argv ! 2), argv ! 2)])"
    and "fopen_rb env path = None"
    and "NUL \<notin> set (concat (map fst fs))" and "NUL \<notin> set (argv ! 2)"
  shows "\<exists>body entries printed.
           packer env stack argv = PExit 0 (Some (archive_layout body entries)) printed \<and>
           (''Warning: Could not open file '' @ path @ [NEWLINE]) \<in> set printed \<and>
           (\<exists>e \<in> set entries. entry_name e = relative \<and> size_bytes e = 0) \<and>
           map entry_name entries = after_last_backslash (argv ! 2) # rev (map fst fs) \<and>
           body = payload env ''loader.exe'' @ concat (map (\<lambda>rf. payload env (snd rf)) fs) @
                  payload env (argv ! 2)"
proof -
  let ?es = "packed_manifest env (argv ! 2) fs"
  have run: "packer env stack argv =
         PExit 0 (Some (archive_layout (packed_body env (argv ! 2) fs) ?es))
           (lines_of_run env argv fs)"
    using assms(1-6) by (rule packer_run)
  have all: "\<forall>rf \<in> set fs. NUL \<notin> set (fst rf)"
    using assms(9) by auto
  have nul: "NUL \<notin> set (after_last_backslash (argv ! 2))"
    using assms(10) after_last_backslash_subset by blast
  have found: "(\<exists>e \<in> set ?es. entry_name e = relative \<and> size_bytes e = 0) \<and>
        (''Warning: Could not open file '' @ path @ [NEWLINE]) \<in> set (lines_of_run env argv fs)"
  proof (cases "(relative, path) \<in> set fs")
    case True
    obtain k' pos' where
      "new_entry env k' pos' relative path 0 \<in> set (packed_entries env 0
          (length (payload env ''loader.exe'')) fs)"
      using packed_entries_member [OF True] by blast
    then have mem: "new_entry env k' pos' relative path 0 \<in> set ?es"
      by (simp add: packed_manifest_def)
    have "NUL \<notin> set relative" using True all by auto
    then have "entry_name (new_entry env k' pos' relative path 0) = relative"
      by (simp add: entry_name_def)
    moreover have "size_bytes (new_entry env k' pos' relative path 0) = 0"
      using assms(8) by simp
    ultimately have "\<exists>e \<in> set ?es. entry_name e = relative \<and> size_bytes e = 0"
      using mem by blast
    with warning_printed [OF True assms(8)] show ?thesis by blast
  next
    case False
    with assms(7) have exe: "relative = after_last_backslash (argv ! 2)" "path = argv ! 2"
      by simp_all
    define e where "e = new_entry env (length fs)
       (length (payload env ''loader.exe'' @ concat (map (\<lambda>rf. payload env (snd rf)) fs)))
       (after_last_backslash (argv ! 2)) (argv ! 2) 1"
    have "e \<in> set ?es"
      by (simp add: packed_manifest_def e_def)
    moreover have "entry_name e = relative"
      using nul by (simp add: entry_name_def e_def exe)
    moreover have "size_bytes e = 0"
      using assms(8) by (simp add: e_def exe)
    ultimately have "\<exists>e \<in> set ?es. entry_name e = relative \<and> size_bytes e = 0"
      by blast
    moreover have "(''Warning: Could not open file '' @ path @ [NEWLINE]) \<in>
                   set (lines_printed env (argv ! 2))"
      using assms(8) by (simp add: lines_printed_def exe)
    then have "(''Warning: Could not open file '' @ path @ [NEWLINE]) \<in>
               set (lines_of_run env argv fs)"
      by (simp add: lines_of_run_def del: append.simps)
    ultimately show ?thesis by blast
  qed
  have names: "map entry_name ?es = after_last_backslash (argv ! 2) # rev (map fst fs)"
    using packed_manifest_names [OF all assms(10)] by (simp add: entry_name_def [abs_def])
  show ?thesis
  proof (intro exI conjI)
    show "packer env stack argv =
         PExit 0 (Some (archive_layout (packed_body env (argv ! 2) fs) ?es))
           (lines_of_run env argv fs)"
      by (rule run)
    show "(''Warning: Could not open file '' @ path @ [NEWLINE]) \<in> set (lines_of_run env argv fs)"
      using found by blast
    show "\<exists>e \<in> set ?es. entry_name e = relative \<and> size_bytes e = 0"
      using found by blast
    show "map entry_name ?es = after_last_backslash (argv ! 2) # rev (map fst fs)"
      by (rule names)
    show "packed_body env (argv ! 2) fs =
          payload env ''loader.exe'' @ concat (map (\<lambda>rf. payload env (snd rf)) fs) @
          payload env (argv ! 2)"
      by (simp add: packed_body_def)
  qed
qed

text \<open>The example host with \<^verbatim>\<open>readme.txt\<close> locked.\<close>

theorem unopened_file_packed_empty_example:
  "length example_argv = 4 \<and> p_fopen_wb (example_host readme_locked) (example_argv ! 3) \<and>
   payload (example_host readme_locked) ''loader.exe'' \<noteq> [] \<and>
   walk_files (example_host readme_locked) (Suc (Suc 0)) (example_argv ! 1) [] =
     Some example_files \<and>
   length (after_last_backslash (example_argv ! 2)) < MAX_PATH \<and>
   list_all (\<lambda>path. \<not> reads_output (example_host readme_locked) (example_argv ! 3) path)
     (''loader.exe'' # map snd example_files @ [example_argv ! 2]) \<and>
   (''Content'' @ [BACKSLASH] @ ''readme.txt'',
    ''Dir'' @ [BACKSLASH] @ ''Content'' @ [BACKSLASH] @ ''readme.txt'') \<in>
     set (example_files @ [(after_last_backslash (example_argv ! 2), example_argv ! 2)]) \<and>
   fopen_rb (example_host readme_locked)
     (''Dir'' @ [BACKSLASH] @ ''Content'' @ [BACKSLASH] @ ''readme.txt'') = None \<and>
   NUL \<notin> set (concat (map fst example_files)) \<and> NUL \<notin> set (example_argv ! 2) \<and>
   (\<exists>body entries printed.
      packer (example_host readme_locked) (Suc (Suc 0)) example_argv =
        PExit 0 (Some (archive_layout body entries)) printed \<and>
      (''Warning: Could not open file '' @
         (''Dir'' @ [BACKSLASH] @ ''Content'' @ [BACKSLASH] @ ''readme.txt'') @ [NEWLINE])
        \<in> set printed \<and>
      (\<exists>e \<in> set entries. entry_name e = ''Content'' @ [BACKSLASH] @ ''readme.txt'' \<and>
         size_bytes e = 0) \<and>
      map entry_name entries =
        after_last_backslash (example_argv ! 2) # rev (map fst example_files) \<and>
      body = payload (example_host readme_locked) ''loader.exe'' @
             concat (map (\<lambda>rf. payload (example_host readme_locked) (snd rf)) example_files) @
             payload (example_host readme_locked) (example_argv ! 2))"
proof -
  have arg: "example_argv ! 1 = ''Dir''" "example_argv ! 2 = ''Game.exe''"
    by (simp_all add: example_argv_def)
  have h1: "length example_argv = 4"
    by (simp add: example_argv_def)
  have h2: "p_fopen_wb (example_host readme_locked) (example_argv ! 3)"
    by (simp add: example_host_def)
  have h3: "payload (example_host readme_locked) ''loader.exe'' \<noteq> []"
    by (simp add: payload_def fopen_rb_def example_host_def readme_locked_def)
  have h4: "walk_files (example_host readme_locked) (Suc (Suc 0)) (example_argv ! 1) [] =
     Some example_files"
    by (simp only: arg example_walk)
  have h5: "length (after_last_backslash (example_argv ! 2)) < MAX_PATH"
    by (simp add: arg after_last_backslash_def MAX_PATH_def)
  have h6: "(''Content'' @ [BACKSLASH] @ ''readme.txt'',
    ''Dir'' @ [BACKSLASH] @ ''Content'' @ [BACKSLASH] @ ''readme.txt'') \<in>
     set (example_files @ [(after_last_backslash (example_argv ! 2), example_argv ! 2)])"
    by (simp add: example_files_def)
  have h7: "fopen_rb (example_host readme_locked)
     (''Dir'' @ [BACKSLASH] @ ''Content'' @ [BACKSLASH] @ ''readme.txt'') = None"
    by (simp add: fopen_rb_def example_host_def readme_locked_def)
  have h8: "NUL \<notin> set (concat (map fst example_files))"
    by (simp add: example_files_def)
  have h9: "NUL \<notin> set (example_argv ! 2)"
    by (simp add: arg)
  show ?thesis
    using unopened_file_packed_empty [OF h1 h2 h3 h4 h5 example_apart h6 h7 h8 h9]
      h1 h2 h3 h4 h5 example_apart [of readme_locked] h6 h7 h8 h9
    by (intro conjI)
qed


section \<open>Facts about the loader\<close>

lemma extract_entry_eq:
  "extract_entry env file e st =
     (let made = fst (prepared_path env e); out_path = target env e;
          st1 = st\<lparr>calls := calls st @ made\<rparr>
      in if \<not> l_fopen_wb env (calls st1) out_path then st1
         else
           let r = extract_loop file (fseek_set (position st) (offset e)) (buffer st)
                     (size_bytes e) []
           in st1\<lparr>position := fst r, buffer := fst (snd r),
                   calls := calls st1 @ [WriteFile out_path (snd (snd r))],
                   main_exe_path :=
                     (if is_executable e \<noteq> 0 then out_path else main_exe_path st)\<rparr>)"
  by (simp add: extract_entry_def prepared_path_def target_def Let_def split: prod.splits)

lemma extract_entry_skipped:
  assumes "\<not> l_fopen_wb env (calls st @ fst (prepared_path env e)) (target env e)"
  shows "extract_entry env file e st = st\<lparr>calls := calls st @ fst (prepared_path env e)\<rparr>"
  using assms by (simp add: extract_entry_eq Let_def)

lemma extract_entry_written:
  assumes "l_fopen_wb env (calls st @ fst (prepared_path env e)) (target env e)"
  shows "calls (extract_entry env file e st) =
           calls st @ fst (prepared_path env e) @
           [WriteFile (target env e)
              (snd (snd (extract_loop file (fseek_set (position st) (offset e)) (buffer st)
                 (size_bytes e) [])))]"
    and "main_exe_path (extract_entry env file e st) =
           (if is_executable e \<noteq> 0 then target env e else main_exe_path st)"
  using assms by (simp_all add: extract_entry_eq Let_def)

lemma create_subdirectories_calls:
  "write_paths (fst (create_subdirectories before after)) = [] \<and>
   \<not> starts_process (fst (create_subdirectories before after))"
  by (induction before after rule: create_subdirectories.induct)
     (auto simp: Let_def split: prod.splits)

lemma create_subdirectories_path:
  "snd (create_subdirectories before after) =
     before @ map (\<lambda>c. if c = SLASH then BACKSLASH else c) after"
  by (induction before after rule: create_subdirectories.induct)
     (auto simp: Let_def split: prod.splits)

lemma write_paths_append [simp]: "write_paths (xs @ ys) = write_paths xs @ write_paths ys"
  by (induction xs rule: write_paths.induct) auto

lemma starts_process_append [simp]:
  "starts_process (xs @ ys) \<longleftrightarrow> starts_process xs \<or> starts_process ys"
  by (induction xs rule: starts_process.induct) auto

lemma prepared_path_calls [simp]:
  "write_paths (fst (prepared_path env e)) = []" "\<not> starts_process (fst (prepared_path env e))"
  by (simp_all add: prepared_path_def Let_def create_subdirectories_calls)

lemma target_eq:
  "target env e =
     (let out_path = snprintf (l_temp_dir env @ [BACKSLASH] @ c_str (relative_path e))
      in take (length (l_temp_dir env) + 1) out_path @
         map (\<lambda>c. if c = SLASH then BACKSLASH else c)
           (drop (length (l_temp_dir env) + 1) out_path))"
  by (simp add: target_def prepared_path_def Let_def create_subdirectories_path)

lemma target_plain:
  assumes "length (l_temp_dir env) + 1 + length (entry_name e) < MAX_PATH"
    and "SLASH \<notin> set (entry_name e)"
  shows "target env e = l_temp_dir env @ [BACKSLASH] @ entry_name e"
proof -
  have "snprintf (l_temp_dir env @ [BACKSLASH] @ c_str (relative_path e)) =
        l_temp_dir env @ [BACKSLASH] @ entry_name e"
    using assms(1) by (simp add: snprintf_def entry_name_def)
  moreover have "map (\<lambda>c. if c = SLASH then BACKSLASH else c) (entry_name e) = entry_name e"
    using assms(2) by (intro map_idI) auto
  ultimately show ?thesis
    by (simp add: target_eq Let_def)
qed

lemma extract_entry_calls:
  "\<exists>made. calls (extract_entry env file e st) = calls st @ made \<and>
          set (write_paths made) \<subseteq> {target env e} \<and> \<not> starts_process made"
proof (cases "l_fopen_wb env (calls st @ fst (prepared_path env e)) (target env e)")
  case True
  from extract_entry_written(1) [OF True, of "file"] show ?thesis
    by (intro exI [of _ "fst (prepared_path env e) @
           [WriteFile (target env e)
              (snd (snd (extract_loop file (fseek_set (position st) (offset e)) (buffer st)
                 (size_bytes e) [])))]"]) simp
next
  case False
  from extract_entry_skipped [OF False, of "file"] show ?thesis
    by (intro exI [of _ "fst (prepared_path env e)"]) simp
qed

lemma extract_fold_calls:
  "\<exists>made. calls (fold (extract_entry env file) es st) = calls st @ made \<and>
          set (write_paths made) \<subseteq> target env ` set es \<and> \<not> starts_process made"
proof (induction es arbitrary: st)
  case Nil
  show ?case by simp
next
  case (Cons e es)
  obtain m1 where m1: "calls (extract_entry env file e st) = calls st @ m1"
    "set (write_paths m1) \<subseteq> {target env e}" "\<not> starts_process m1"
    using extract_entry_calls by blast
  obtain m2 where m2: "calls (fold (extract_entry env file) es (extract_entry env file e st)) =
      calls (extract_entry env file e st) @ m2"
    "set (write_paths m2) \<subseteq> target env ` set es" "\<not> starts_process m2"
    using Cons.IH by blast
  show ?case
    using m1 m2 by (intro exI [of _ "m1 @ m2"]) auto
qed

lemma extract_entry_unflagged:
  "is_executable e = 0 \<Longrightarrow> main_exe_path (extract_entry env file e st) = main_exe_path st"
  by (simp add: extract_entry_eq Let_def)

lemma extract_fold_unflagged:
  "list_all (\<lambda>e. is_executable e = 0) es \<Longrightarrow>
   main_exe_path (fold (extract_entry env file) es st) = main_exe_path st"
  by (induction es arbitrary: st) (simp_all add: extract_entry_unflagged)

lemma written_fold_other:
  "path \<notin> set (write_paths made) \<Longrightarrow>
   fold (\<lambda>c found. case c of
                        WriteFile p bytes \<Rightarrow> if p = path then Some bytes else found
                      | _ \<Rightarrow> found) made found = found"
  by (induction made rule: write_paths.induct) auto

lemma written_other:
  "path \<notin> set (write_paths made) \<Longrightarrow> written (done @ made) path = written done path"
  by (simp add: written_def written_fold_other)

lemma written_last [simp]: "written (done @ [WriteFile path bytes]) path = Some bytes"
  by (simp add: written_def)

lemma delete_calls:
  "recursive_delete_directory env depth path before = Some (removed, after) \<Longrightarrow>
     \<exists>made. after = before @ made \<and> write_paths made = [] \<and> \<not> starts_process made"
  and delete_entries_calls:
  "delete_entries env depth path found before = Some after' \<Longrightarrow>
     \<exists>made. after' = before @ made \<and> write_paths made = [] \<and> \<not> starts_process made"
proof (induction env depth path before and env depth path found before
    arbitrary: removed after and after' rule: recursive_delete_directory_delete_entries.induct)
  case (1 env path before)
  then show ?case by simp
next
  case (2 env depth path before)
  show ?case
  proof (cases "l_find_files env before (snprintf (path @ [BACKSLASH] @ ''*.*''))")
    case None
    with "2.prems" show ?thesis by simp
  next
    case (Some found)
    with "2.prems" obtain d where d: "delete_entries env depth path found before = Some d"
      and after: "after = d @ [RemoveDirectoryA path]"
      by (auto split: option.splits)
    from "2.IH" [OF Some d] obtain made where
      "d = before @ made" "write_paths made = []" "\<not> starts_process made"
      by blast
    with after show ?thesis
      by (intro exI [of _ "made @ [RemoveDirectoryA path]"]) simp
  qed
next
  case (3 env depth path before)
  then show ?case by simp
next
  case (4 env depth path cFileName is_dir others before)
  show ?case
  proof (cases "cFileName \<noteq> ''.'' \<and> cFileName \<noteq> ''..''")
    case False
    with "4.prems" have "delete_entries env depth path others before = Some after'"
      by auto
    with "4.IH"(4) False show ?thesis by blast
  next
    case named: True
    show ?thesis
    proof (cases is_dir)
      case True
      with "4.prems" named obtain removed d where
        d: "recursive_delete_directory env depth (snprintf (path @ [BACKSLASH] @ cFileName)) before
            = Some (removed, d)"
        and rest: "delete_entries env depth path others d = Some after'"
        by (auto simp: Let_def split: option.splits)
      from "4.IH"(1) [OF named refl True d] obtain m1 where
        m1: "d = before @ m1" "write_paths m1 = []" "\<not> starts_process m1"
        by blast
      from "4.IH"(2) [OF named refl True d refl rest] obtain m2 where
        m2: "after' = d @ m2" "write_paths m2 = []" "\<not> starts_process m2"
        by blast
      from m1 m2 show ?thesis
        by (intro exI [of _ "m1 @ m2"]) simp
    next
      case False
      with "4.prems" named have
        rest: "delete_entries env depth path others
                (before @ [DeleteFileA (snprintf (path @ [BACKSLASH] @ cFileName))]) = Some after'"
        by (auto simp: Let_def)
      from "4.IH"(3) [OF named refl False rest] obtain m2 where
        m2: "after' = (before @ [DeleteFileA (snprintf (path @ [BACKSLASH] @ cFileName))]) @ m2"
        "write_paths m2 = []" "\<not> starts_process m2"
        by blast
      then show ?thesis
        by (intro exI [of _ "DeleteFileA (snprintf (path @ [BACKSLASH] @ cFileName)) # m2"]) simp
    qed
  qed
qed

lemma extract_loop_nothing [simp]: "extract_loop file pos buf 0 out = (pos, buf, out)"
  by (subst extract_loop.simps) simp

lemma extract_loop_within:
  "pos + unat remaining \<le> length src \<Longrightarrow>
   fst (extract_loop src pos buf remaining out) = pos + unat remaining \<and>
   snd (snd (extract_loop src pos buf remaining out)) =
     out @ take (unat remaining) (drop pos src)"
proof (induction src pos buf remaining out rule: extract_loop.induct)
  case (1 src pos buf remaining out)
  show ?case
  proof (cases "remaining > 0")
    case False
    then have "remaining = 0" by (simp add: word_greater_zero_iff)
    then show ?thesis by simp
  next
    case True
    define to_read where
      "to_read = (if remaining > 1024 * 1024 then 1024 * 1024 else unat remaining)"
    have le: "to_read \<le> unat remaining"
      by (auto simp: to_read_def word_less_nat_alt)
    have sub: "unat (remaining - of_nat to_read) = unat remaining - to_read"
    proof (cases "remaining > 1024 * 1024")
      case True
      then show ?thesis
        by (simp add: to_read_def unat_sub word_le_nat_alt word_less_nat_alt)
    next
      case False
      then show ?thesis by (simp add: to_read_def)
    qed
    have fits: "pos + to_read \<le> length src"
      using le "1.prems" by simp
    define content where "content = take to_read (drop pos src)"
    have rd: "fread src pos to_read buf = (content, pos + to_read)"
      using fits by (simp add: fread_whole content_def)
    define buf' where "buf' = (\<lambda>i. if i < to_read then content ! i else buf i)"
    have step: "extract_loop src pos buf remaining out =
                extract_loop src (pos + to_read) buf' (remaining - of_nat to_read)
                  (out @ content)"
    proof -
      have "extract_loop src pos buf remaining out =
            (let to_read = (if remaining > 1024 * 1024 then 1024 * 1024 else unat remaining);
                 (content, pos') = fread src pos to_read buf;
                 buf' = (\<lambda>i. if i < to_read then content ! i else buf i)
             in extract_loop src pos' buf' (remaining - of_nat to_read) (out @ content))"
        using True by (subst extract_loop.simps) (simp only: if_True)
      then show ?thesis
        by (simp only: Let_def to_read_def [symmetric] rd prod.case buf'_def [symmetric])
    qed
    have "pos + to_read + unat (remaining - of_nat to_read) \<le> length src"
      using sub le "1.prems" by simp
    from "1.IH" [OF True to_read_def rd [symmetric] refl buf'_def this]
    have "fst (extract_loop src (pos + to_read) buf' (remaining - of_nat to_read)
                 (out @ content)) = pos + to_read + unat (remaining - of_nat to_read)"
      and "snd (snd (extract_loop src (pos + to_read) buf' (remaining - of_nat to_read)
                 (out @ content))) =
           (out @ content) @ take (unat (remaining - of_nat to_read))
              (drop (pos + to_read) src)"
      by simp_all
    moreover have "content @ take (unat remaining - to_read) (drop (pos + to_read) src) =
                   take (unat remaining) (drop pos src)"
    proof -
      have "take (unat remaining) (drop pos src) =
            take (to_read + (unat remaining - to_read)) (drop pos src)"
        using le by simp
      also have "\<dots> = take to_read (drop pos src) @
                 take (unat remaining - to_read) (drop to_read (drop pos src))"
        by (rule take_add)
      finally show ?thesis by (simp add: content_def add.commute)
    qed
    ultimately show ?thesis
      using le by (simp add: step sub)
  qed
qed

lemma c_str_magic [simp]: "c_str (MAGIC_BYTES @ [NUL]) = MAGIC_BYTES"
  by (simp add: c_str_def MAGIC_BYTES_def)

lemma loader_on_layout:
  assumes self: "l_self env = Some (archive_layout body entries)"
    and small: "length (archive_layout body entries) < 2 ^ 31"
    and lens: "\<forall>e \<in> set entries. length (relative_path e) = MAX_PATH"
    and mem: "l_malloc env (sizeof_ManifestEntry * length entries)"
    and temp: "length (l_temp_dir env) < MAX_PATH - 1"
  shows "loader env stack =
         launch_and_clean_up env stack
           (extract_all env (archive_layout body entries) entries
              (length body + 8 + sizeof_ManifestEntry * length entries))"
proof -
  have a: "length entries \<le> sizeof_ManifestEntry * length entries"
    by (simp add: sizeof_ManifestEntry_def MAX_PATH_def)
  have b: "sizeof_ManifestEntry * length entries \<le> length (archive_layout body entries)"
    using lens length_concat_blocks [of "map entry_bytes entries" sizeof_ManifestEntry]
    by (simp add: archive_layout_def sizeof_ManifestEntry_def)
  have "sizeof_ManifestEntry * length entries < 2 ^ 31"
    using b small by linarith
  moreover from this a have "length entries < 2 ^ 31" by linarith
  ultimately have n: "length entries < 2 ^ 64" "sizeof_ManifestEntry * length entries < 2 ^ 64"
    by simp_all
  have count: "unat (of_nat (length entries) :: 64 word) = length entries"
    using n(1) by (rule unat_of_nat_64)
  show ?thesis
    using self mem temp n(2)
    by (simp add: loader_def read_layout [OF small lens] count)
qed

lemma extract_all_calls:
  "\<exists>made. calls (extract_all env file es pos) =
            [GetTempFileNameA (l_temp_dir env), DeleteFileA (l_temp_dir env),
             CreateDirectoryA (l_temp_dir env)] @ made \<and>
          set (write_paths made) \<subseteq> target env ` set es \<and> \<not> starts_process made"
proof -
  let ?st0 = "\<lparr> position = pos, buffer = l_heap_buffer env,
                 calls = [GetTempFileNameA (l_temp_dir env), DeleteFileA (l_temp_dir env),
                          CreateDirectoryA (l_temp_dir env)],
                 main_exe_path = [] \<rparr>"
  from extract_fold_calls [of env "file" es ?st0] show ?thesis
    by (simp add: extract_all_def Let_def)
qed

lemma extract_all_quiet: "\<not> starts_process (calls (extract_all env file es pos))"
  using extract_all_calls [of env "file" es pos] by auto

lemma launch_without_executable:
  assumes "main_exe_path st = []"
    and "recursive_delete_directory env stack (l_temp_dir env) (calls st) = Some (removed, after)"
  shows "launch_and_clean_up env stack st = LReturn 1 after"
  using assms by (simp add: launch_and_clean_up_def Let_def)

lemma launch_exited:
  assumes "main_exe_path st \<noteq> []"
    and "l_create_process env (calls st) (main_exe_path st) (l_cmd_line env) (l_temp_dir env)
         = Exited code"
    and "recursive_delete_directory env stack (l_temp_dir env)
           (calls st @ [CreateProcessA (main_exe_path st) (l_cmd_line env) (l_temp_dir env)])
         = Some (removed, after)"
  shows "launch_and_clean_up env stack st = LReturn code after"
  using assms by (simp add: launch_and_clean_up_def Let_def)

lemma launch_failed:
  assumes "main_exe_path st \<noteq> []"
    and "l_create_process env (calls st) (main_exe_path st) (l_cmd_line env) (l_temp_dir env)
         = StartFailed"
    and "recursive_delete_directory env stack (l_temp_dir env)
           (calls st @ [CreateProcessA (main_exe_path st) (l_cmd_line env) (l_temp_dir env)])
         = Some (removed, after)"
  shows "launch_and_clean_up env stack st = LReturn 1 after"
  using assms by (simp add: launch_and_clean_up_def Let_def)

lemma launch_calls:
  "\<exists>made. calls_of (launch_and_clean_up env stack st) = calls st @ made \<and>
          write_paths made = []"
proof -
  let ?done = "if length (main_exe_path st) > 0
               then calls st @ [CreateProcessA (main_exe_path st) (l_cmd_line env) (l_temp_dir env)]
               else calls st"
  have d: "\<exists>made. ?done = calls st @ made \<and> write_paths made = []"
  proof (cases "length (main_exe_path st) > 0")
    case True
    then show ?thesis
      by (intro exI [of _ "[CreateProcessA (main_exe_path st) (l_cmd_line env) (l_temp_dir env)]"])
        simp
  next
    case False
    then show ?thesis by (intro exI [of _ "[]"]) simp
  qed
  have "calls_of (launch_and_clean_up env stack st) = ?done \<or>
        (\<exists>removed after. recursive_delete_directory env stack (l_temp_dir env) ?done
            = Some (removed, after) \<and>
          calls_of (launch_and_clean_up env stack st) = after)"
    by (auto simp: launch_and_clean_up_def Let_def split: option.splits)
  then show ?thesis
  proof
    assume "calls_of (launch_and_clean_up env stack st) = ?done"
    with d show ?thesis by simp
  next
    assume "\<exists>removed after. recursive_delete_directory env stack (l_temp_dir env) ?done
            = Some (removed, after) \<and>
          calls_of (launch_and_clean_up env stack st) = after"
    then obtain removed after where
      r: "recursive_delete_directory env stack (l_temp_dir env) ?done = Some (removed, after)"
      and c: "calls_of (launch_and_clean_up env stack st) = after"
      by blast
    from delete_calls [OF r] obtain m2 where m2: "after = ?done @ m2" "write_paths m2 = []"
      by blast
    from d obtain m1 where m1: "?done = calls st @ m1" "write_paths m1 = []"
      by blast
    show ?thesis
      using c m1 m2 by (intro exI [of _ "m1 @ m2"]) simp
  qed
qed

lemma extract_all_flagged_first:
  assumes "is_executable e \<noteq> 0"
    and "\<forall>before. l_fopen_wb env before (target env e)"
    and "list_all (\<lambda>e. is_executable e = 0) es"
  shows "main_exe_path (extract_all env file (e # es) pos) = target env e"
  using assms
  by (simp add: extract_all_def Let_def extract_fold_unflagged extract_entry_written(2))

lemma quiet_cleanup:
  "recursive_delete_directory (quiet_loader_env file) (Suc 0) path before = Some (False, before)"
  by (simp add: quiet_loader_env_def)

lemma quiet_env_fields [simp]:
  "l_self (quiet_loader_env file) = Some file"
  "l_temp_dir (quiet_loader_env file) = ''C:'' @ [BACKSLASH] @ ''T'' @ [BACKSLASH] @ ''d2e1.tmp''"
  "l_cmd_line (quiet_loader_env file) = ''Out.exe''"
  "l_fopen_wb (quiet_loader_env file) before path"
  "l_create_process (quiet_loader_env file) before application command_line directory = Exited 7"
  "l_malloc (quiet_loader_env file) n"
  "l_heap_buffer (quiet_loader_env file) = (\<lambda>i. 0)"
  by (simp_all add: quiet_loader_env_def)

lemma example_main_exe_path:
  "main_exe_path (extract_all (quiet_loader_env file) src example_manifest pos) =
     ''C:'' @ [BACKSLASH] @ ''T'' @ [BACKSLASH] @ ''d2e1.tmp'' @ [BACKSLASH] @ ''Game.exe''"
proof -
  let ?g = "\<lparr> offset = 9, size_bytes = 2, is_executable = 1,
        relative_path = char_array ''Game.exe'' \<rparr>"
  have t: "target (quiet_loader_env file) ?g =
           l_temp_dir (quiet_loader_env file) @ [BACKSLASH] @ entry_name ?g"
    by (rule target_plain) (simp_all add: entry_name_def MAX_PATH_def)
  have "main_exe_path (extract_all (quiet_loader_env file) src example_manifest pos) =
        target (quiet_loader_env file) ?g"
    unfolding example_manifest_def
    by (rule extract_all_flagged_first) simp_all
  then show ?thesis by (simp add: t entry_name_def)
qed

lemma extract_fold_refused:
  assumes "\<forall>before. list_all (\<lambda>e. is_executable e = 0 \<or>
             \<not> l_fopen_wb env before (target env e)) es"
  shows "main_exe_path (fold (extract_entry env src) es st) = main_exe_path st"
  using assms
proof (induction es arbitrary: st)
  case Nil
  show ?case by simp
next
  case (Cons e es)
  have "main_exe_path (extract_entry env src e st) = main_exe_path st"
  proof (cases "is_executable e = 0")
    case True
    then show ?thesis by (rule extract_entry_unflagged)
  next
    case False
    with Cons.prems have "\<not> l_fopen_wb env (calls st @ fst (prepared_path env e)) (target env e)"
      by simp
    then show ?thesis by (simp add: extract_entry_skipped)
  qed
  moreover have "main_exe_path (fold (extract_entry env src) es (extract_entry env src e st)) =
                 main_exe_path (extract_entry env src e st)"
    using Cons.prems by (intro Cons.IH) simp
  ultimately show ?case by simp
qed

lemma extract_fold_writes:
  assumes "e \<in> set es" and "\<forall>before. l_fopen_wb env before (target env e)"
  shows "target env e \<in> set (write_paths (calls (fold (extract_entry env src) es st)))"
  using assms(1)
proof (induction es arbitrary: st)
  case Nil
  then show ?case by simp
next
  case (Cons x xs)
  show ?case
  proof (cases "e = x")
    case True
    have "l_fopen_wb env (calls st @ fst (prepared_path env e)) (target env e)"
      using assms(2) by simp
    from extract_entry_written(1) [OF this, of src]
    have "target env e \<in> set (write_paths (calls (extract_entry env src e st)))"
      by simp
    moreover obtain made where
      "calls (fold (extract_entry env src) xs (extract_entry env src e st)) =
       calls (extract_entry env src e st) @ made"
      using extract_fold_calls by blast
    ultimately show ?thesis using True by simp
  next
    case False
    with Cons.prems have "e \<in> set xs" by simp
    then show ?thesis by (simp add: Cons.IH)
  qed
qed

lemma picky_env_fields [simp]:
  "l_self (picky_loader_env file) = Some file"
  "l_temp_dir (picky_loader_env file) = ''C:'' @ [BACKSLASH] @ ''T'' @ [BACKSLASH] @ ''d2e1.tmp''"
  "l_malloc (picky_loader_env file) n"
  "l_fopen_wb (picky_loader_env file) before path \<longleftrightarrow>
     path \<noteq> ''C:'' @ [BACKSLASH] @ ''T'' @ [BACKSLASH] @ ''d2e1.tmp'' @ [BACKSLASH] @ ''Game.exe''"
  "l_remove_directory (picky_loader_env file) before path"
  by (simp_all add: picky_loader_env_def quiet_loader_env_def)

lemma example_targets:
  assumes "l_temp_dir env = ''C:'' @ [BACKSLASH] @ ''T'' @ [BACKSLASH] @ ''d2e1.tmp''"
  shows "target env \<lparr> offset = a, size_bytes = b, is_executable = c,
                      relative_path = char_array ''Game.exe'' \<rparr> =
         ''C:'' @ [BACKSLASH] @ ''T'' @ [BACKSLASH] @ ''d2e1.tmp'' @ [BACKSLASH] @ ''Game.exe''"
    and "target env \<lparr> offset = a, size_bytes = b, is_executable = c,
                      relative_path = char_array (''Content'' @ [BACKSLASH] @ ''readme.txt'') \<rparr> =
         ''C:'' @ [BACKSLASH] @ ''T'' @ [BACKSLASH] @ ''d2e1.tmp'' @ [BACKSLASH] @
         ''Content'' @ [BACKSLASH] @ ''readme.txt''"
    and "target env \<lparr> offset = a, size_bytes = b, is_executable = c,
                      relative_path = char_array ''a.txt'' \<rparr> =
         ''C:'' @ [BACKSLASH] @ ''T'' @ [BACKSLASH] @ ''d2e1.tmp'' @ [BACKSLASH] @ ''a.txt''"
proof -
  have t: "target env e = l_temp_dir env @ [BACKSLASH] @ entry_name e"
    if "length (entry_name e) < 200" "SLASH \<notin> set (entry_name e)" for e
    using that by (intro target_plain) (simp_all add: assms MAX_PATH_def)
  show "target env \<lparr> offset = a, size_bytes = b, is_executable = c,
                      relative_path = char_array ''Game.exe'' \<rparr> =
         ''C:'' @ [BACKSLASH] @ ''T'' @ [BACKSLASH] @ ''d2e1.tmp'' @ [BACKSLASH] @ ''Game.exe''"
    by (subst t) (simp_all add: entry_name_def assms)
  show "target env \<lparr> offset = a, size_bytes = b, is_executable = c,
                      relative_path = char_array (''Content'' @ [BACKSLASH] @ ''readme.txt'') \<rparr> =
         ''C:'' @ [BACKSLASH] @ ''T'' @ [BACKSLASH] @ ''d2e1.tmp'' @ [BACKSLASH] @
         ''Content'' @ [BACKSLASH] @ ''readme.txt''"
    by (subst t) (simp_all add: entry_name_def assms)
  show "target env \<lparr> offset = a, size_bytes = b, is_executable = c,
                      relative_path = char_array ''a.txt'' \<rparr> =
         ''C:'' @ [BACKSLASH] @ ''T'' @ [BACKSLASH] @ ''d2e1.tmp'' @ [BACKSLASH] @ ''a.txt''"
    by (subst t) (simp_all add: entry_name_def assms)
qed

section \<open>Facts about what the loader extracts\<close>

lemma fseek_set_unat: "unat off < 2 ^ 31 \<Longrightarrow> fseek_set pos off = unat off"
  using fseek_set_small [of "unat off" pos] by simp

lemma extract_loop_stored:
  assumes "in_bounds src e"
  shows "snd (snd (extract_loop src (fseek_set pos (offset e)) buf (size_bytes e) [])) =
         stored src e"
proof (cases "size_bytes e = 0")
  case True
  then show ?thesis by (simp add: stored_def)
next
  case False
  with assms have b: "unat (offset e) < 2 ^ 31"
    "unat (offset e) + unat (size_bytes e) \<le> length src"
    by (simp_all add: in_bounds_def)
  from extract_loop_within [OF b(2), of buf "[]"] show ?thesis
    by (simp add: fseek_set_unat [OF b(1)] stored_def)
qed

lemma extract_entry_in_bounds:
  assumes "\<forall>before. l_fopen_wb env before (target env e)" and "in_bounds src e"
  shows "calls (extract_entry env src e st) =
           calls st @ fst (prepared_path env e) @ [WriteFile (target env e) (stored src e)]"
proof -
  have "l_fopen_wb env (calls st @ fst (prepared_path env e)) (target env e)"
    using assms(1) by simp
  from extract_entry_written(1) [OF this, of src] show ?thesis
    by (simp add: extract_loop_stored [OF assms(2)])
qed

lemma extract_fold_in_bounds:
  assumes "\<forall>before. list_all (\<lambda>e. l_fopen_wb env before (target env e)) es"
    and "list_all (in_bounds src) es"
  shows "calls (fold (extract_entry env src) es st) =
           calls st @
           concat (map (\<lambda>e. fst (prepared_path env e) @
                              [WriteFile (target env e) (stored src e)]) es)"
  using assms
proof (induction es arbitrary: st)
  case Nil
  show ?case by simp
next
  case (Cons e es)
  have e: "\<forall>before. l_fopen_wb env before (target env e)" "in_bounds src e"
    using Cons.prems by simp_all
  have "calls (fold (extract_entry env src) es (extract_entry env src e st)) =
        calls (extract_entry env src e st) @
        concat (map (\<lambda>e. fst (prepared_path env e) @
                           [WriteFile (target env e) (stored src e)]) es)"
    using Cons.prems by (intro Cons.IH) simp_all
  then show ?case
    by (simp add: extract_entry_in_bounds [OF e])
qed

lemma extract_loop_past_end:
  assumes "length src \<le> pos" and "0 < remaining" and "remaining \<le> 1024 * 1024"
  shows "snd (snd (extract_loop src pos buf remaining out)) =
         out @ map buf [0..<unat remaining]"
proof -
  have "\<not> remaining > 1024 * 1024" using assms(3) by simp
  moreover have "fread src pos (unat remaining) buf = (map buf [0..<unat remaining], pos)"
    using assms(1) by (simp add: fread_def)
  ultimately show ?thesis
    using assms(2) by (subst extract_loop.simps) (simp add: Let_def)
qed

lemma footer_of_layout:
  assumes "\<forall>e \<in> set entries. length (relative_path e) = MAX_PATH"
  shows "sizeof_ArchiveFooter \<le> length (archive_layout body entries)"
    and "footer_of_bytes (drop (length (archive_layout body entries) - sizeof_ArchiveFooter)
           (archive_layout body entries)) =
         \<lparr> manifest_offset = ftell (length body), magic = MAGIC_BYTES @ [NUL] \<rparr>"
proof -
  let ?f = "\<lparr> manifest_offset = ftell (length body), magic = MAGIC_BYTES @ [NUL] \<rparr>"
  have blocks: "\<forall>b \<in> set (map entry_bytes entries). length b = sizeof_ManifestEntry"
    using assms by (simp add: sizeof_ManifestEntry_def)
  have len_m: "length (concat (map entry_bytes entries)) = sizeof_ManifestEntry * length entries"
    using length_concat_blocks [OF blocks] by simp
  show "sizeof_ArchiveFooter \<le> length (archive_layout body entries)"
    by (simp add: archive_layout_def sizeof_ArchiveFooter_def MAGIC_BYTES_def)
  have "drop (length (archive_layout body entries) - sizeof_ArchiveFooter)
                  (archive_layout body entries) = footer_bytes ?f"
    by (simp add: archive_layout_def len_m sizeof_ArchiveFooter_def MAGIC_BYTES_def)
  moreover have "footer_of_bytes (footer_bytes ?f) = ?f"
    by (rule footer_of_bytes_footer_bytes) (simp add: MAGIC_BYTES_def)
  ultimately show "footer_of_bytes (drop (length (archive_layout body entries) - sizeof_ArchiveFooter)
           (archive_layout body entries)) = ?f"
    by simp
qed

lemma launch_returned:
  assumes "launch_and_clean_up env stack st = LReturn code after"
  shows "(\<exists>made. after = calls st @ made) \<and>
         (code = 1 \<or>
          l_create_process env (calls st) (main_exe_path st) (l_cmd_line env) (l_temp_dir env)
            = Exited code)"
proof -
  from launch_calls [of env stack st] assms have "\<exists>made. after = calls st @ made"
    by auto
  moreover have "code = 1 \<or>
          l_create_process env (calls st) (main_exe_path st) (l_cmd_line env) (l_temp_dir env)
            = Exited code"
    using assms
    by (cases "l_create_process env (calls st) (main_exe_path st) (l_cmd_line env)
                 (l_temp_dir env)")
       (auto simp: launch_and_clean_up_def Let_def split: if_splits option.splits)
  ultimately show ?thesis by blast
qed

lemma loader_after_magic:
  assumes "l_self env = Some src" and "sizeof_ArchiveFooter \<le> length src"
    and "c_str (magic (footer_of_bytes (drop (length src - sizeof_ArchiveFooter) src)))
         = MAGIC_BYTES"
    and "loader env stack = LReturn code after"
  shows "\<exists>manifest pos. loader env stack =
           launch_and_clean_up env stack (extract_all env src manifest pos)"
  using assms
  by (auto simp: loader_def read_footer_last16 Let_def split: prod.splits if_splits) metis+

lemma escaping_run:
  "loader (quiet_loader_env escaping_archive) (Suc 0) =
     LReturn 1
       [GetTempFileNameA (''C:'' @ [BACKSLASH] @ ''T'' @ [BACKSLASH] @ ''d2e1.tmp''),
        DeleteFileA (''C:'' @ [BACKSLASH] @ ''T'' @ [BACKSLASH] @ ''d2e1.tmp''),
        CreateDirectoryA (''C:'' @ [BACKSLASH] @ ''T'' @ [BACKSLASH] @ ''d2e1.tmp''),
        CreateDirectoryA (''C:'' @ [BACKSLASH] @ ''T'' @ [BACKSLASH] @ ''d2e1.tmp'' @
                          [BACKSLASH] @ ''..''),
        CreateDirectoryA (''C:'' @ [BACKSLASH] @ ''T'' @ [BACKSLASH] @ ''d2e1.tmp'' @
                          [BACKSLASH] @ ''..'' @ [BACKSLASH] @ ''..''),
        WriteFile (''C:'' @ [BACKSLASH] @ ''T'' @ [BACKSLASH] @ ''d2e1.tmp'' @
                   [BACKSLASH] @ ''..'' @ [BACKSLASH] @ ''..'' @ [BACKSLASH] @ ''evil.exe'')
          [0x58]]"
proof -
  let ?Q = "quiet_loader_env escaping_archive"
  let ?e = "\<lparr> offset = 3, size_bytes = 1, is_executable = 0,
          relative_path = char_array (''..'' @ [BACKSLASH] @ ''..'' @ [BACKSLASH] @ ''evil.exe'') \<rparr>"
  let ?A = "archive_layout [0x4D, 0x5A, 0x90, 0x58] [?e]"
  have A: "escaping_archive = ?A" by (simp add: escaping_archive_def)
  have small: "length ?A < 2 ^ 31"
    by (simp add: archive_layout_def MAX_PATH_def MAGIC_BYTES_def)
  have lens: "\<forall>e \<in> set [?e]. length (relative_path e) = MAX_PATH"
    by (simp add: MAX_PATH_def)
  have run: "loader ?Q (Suc 0) =
             launch_and_clean_up ?Q (Suc 0)
               (extract_all ?Q ?A [?e] (length [0x4D, 0x5A, 0x90, 0x58 :: byte] + 8 +
                  sizeof_ManifestEntry * length [?e]))"
    by (rule loader_on_layout [OF _ small lens]) (simp_all add: A MAX_PATH_def)
  have name: "c_str (relative_path ?e) = ''..'' @ [BACKSLASH] @ ''..'' @ [BACKSLASH] @ ''evil.exe''"
    by simp
  have prepared: "prepared_path ?Q ?e =
     ([CreateDirectoryA (''C:'' @ [BACKSLASH] @ ''T'' @ [BACKSLASH] @ ''d2e1.tmp'' @
                          [BACKSLASH] @ ''..''),
       CreateDirectoryA (''C:'' @ [BACKSLASH] @ ''T'' @ [BACKSLASH] @ ''d2e1.tmp'' @
                          [BACKSLASH] @ ''..'' @ [BACKSLASH] @ ''..'')],
      ''C:'' @ [BACKSLASH] @ ''T'' @ [BACKSLASH] @ ''d2e1.tmp'' @
                   [BACKSLASH] @ ''..'' @ [BACKSLASH] @ ''..'' @ [BACKSLASH] @ ''evil.exe'')"
    by (simp add: prepared_path_def name [simplified] snprintf_def MAX_PATH_def)
  have bounds: "in_bounds ?A ?e"
    by (simp add: in_bounds_def archive_layout_def)
  have stored: "stored ?A ?e = [0x58]"
    by (simp add: stored_def archive_layout_def)
  have calls: "calls (extract_all ?Q ?A [?e] pos) =
     [GetTempFileNameA (l_temp_dir ?Q), DeleteFileA (l_temp_dir ?Q),
      CreateDirectoryA (l_temp_dir ?Q)] @
     fst (prepared_path ?Q ?e) @ [WriteFile (target ?Q ?e) (stored ?A ?e)]" for pos
    unfolding extract_all_def Let_def
    by (subst extract_fold_in_bounds) (simp_all add: bounds [simplified])
  have exe: "main_exe_path (extract_all ?Q ?A [?e] pos) = []" for pos
    unfolding extract_all_def Let_def
    by (subst extract_fold_unflagged) simp_all
  have explicit: "calls (extract_all ?Q ?A [?e] pos) =
       [GetTempFileNameA (''C:'' @ [BACKSLASH] @ ''T'' @ [BACKSLASH] @ ''d2e1.tmp''),
        DeleteFileA (''C:'' @ [BACKSLASH] @ ''T'' @ [BACKSLASH] @ ''d2e1.tmp''),
        CreateDirectoryA (''C:'' @ [BACKSLASH] @ ''T'' @ [BACKSLASH] @ ''d2e1.tmp''),
        CreateDirectoryA (''C:'' @ [BACKSLASH] @ ''T'' @ [BACKSLASH] @ ''d2e1.tmp'' @
                          [BACKSLASH] @ ''..''),
        CreateDirectoryA (''C:'' @ [BACKSLASH] @ ''T'' @ [BACKSLASH] @ ''d2e1.tmp'' @
                          [BACKSLASH] @ ''..'' @ [BACKSLASH] @ ''..''),
        WriteFile (''C:'' @ [BACKSLASH] @ ''T'' @ [BACKSLASH] @ ''d2e1.tmp'' @
                   [BACKSLASH] @ ''..'' @ [BACKSLASH] @ ''..'' @ [BACKSLASH] @ ''evil.exe'')
          [0x58]]" for pos
    by (simp only: calls prepared stored target_def fst_conv snd_conv quiet_env_fields) simp
  have "launch_and_clean_up ?Q (Suc 0) (extract_all ?Q ?A [?e] pos) =
        LReturn 1 (calls (extract_all ?Q ?A [?e] pos))" for pos
    by (rule launch_without_executable [OF exe quiet_cleanup])
  then show ?thesis
    by (simp only: run explicit)
qed

lemma stray_run:
  "loader (quiet_loader_env stray_archive) (Suc 0) =
     LReturn 1
       [GetTempFileNameA (''C:'' @ [BACKSLASH] @ ''T'' @ [BACKSLASH] @ ''d2e1.tmp''),
        DeleteFileA (''C:'' @ [BACKSLASH] @ ''T'' @ [BACKSLASH] @ ''d2e1.tmp''),
        CreateDirectoryA (''C:'' @ [BACKSLASH] @ ''T'' @ [BACKSLASH] @ ''d2e1.tmp''),
        WriteFile (''C:'' @ [BACKSLASH] @ ''T'' @ [BACKSLASH] @ ''d2e1.tmp'' @
                   [BACKSLASH] @ ''a.txt'')
          [0, 0, 0, 0]]"
proof -
  let ?Q = "quiet_loader_env stray_archive"
  let ?e = "\<lparr> offset = 1000, size_bytes = 4, is_executable = 0,
          relative_path = char_array ''a.txt'' \<rparr>"
  let ?A = "archive_layout [0x4D, 0x5A, 0x90] [?e]"
  have A: "stray_archive = ?A" by (simp add: stray_archive_def)
  have len: "length ?A = 304"
    by (simp add: archive_layout_def MAX_PATH_def MAGIC_BYTES_def)
  have small: "length ?A < 2 ^ 31"
    by (simp only: len) simp
  have lens: "\<forall>e \<in> set [?e]. length (relative_path e) = MAX_PATH"
    by (simp add: MAX_PATH_def)
  have run: "loader ?Q (Suc 0) =
             launch_and_clean_up ?Q (Suc 0)
               (extract_all ?Q ?A [?e] (length [0x4D, 0x5A, 0x90 :: byte] + 8 +
                  sizeof_ManifestEntry * length [?e]))"
    by (rule loader_on_layout [OF _ small lens]) (simp_all add: A MAX_PATH_def)
  have prepared: "prepared_path ?Q ?e =
     ([], ''C:'' @ [BACKSLASH] @ ''T'' @ [BACKSLASH] @ ''d2e1.tmp'' @ [BACKSLASH] @ ''a.txt'')"
    by (simp add: prepared_path_def snprintf_def MAX_PATH_def)
  have seek: "fseek_set pos (offset ?e) = 1000" for pos
    using fseek_set_unat [of "1000 :: 64 word" pos] by simp
  have loop: "snd (snd (extract_loop ?A 1000 (\<lambda>i. 0) 4 [])) = [0, 0, 0, 0]"
    by (subst extract_loop_past_end) (simp_all add: len upt_rec)
  have calls: "calls (extract_all ?Q ?A [?e] pos) =
       [GetTempFileNameA (''C:'' @ [BACKSLASH] @ ''T'' @ [BACKSLASH] @ ''d2e1.tmp''),
        DeleteFileA (''C:'' @ [BACKSLASH] @ ''T'' @ [BACKSLASH] @ ''d2e1.tmp''),
        CreateDirectoryA (''C:'' @ [BACKSLASH] @ ''T'' @ [BACKSLASH] @ ''d2e1.tmp''),
        WriteFile (''C:'' @ [BACKSLASH] @ ''T'' @ [BACKSLASH] @ ''d2e1.tmp'' @
                   [BACKSLASH] @ ''a.txt'')
          [0, 0, 0, 0]]" for pos
  proof -
    let ?st0 = "\<lparr> position = pos, buffer = l_heap_buffer ?Q,
                   calls = [GetTempFileNameA (l_temp_dir ?Q), DeleteFileA (l_temp_dir ?Q),
                            CreateDirectoryA (l_temp_dir ?Q)],
                   main_exe_path = [] \<rparr>"
    have "calls (extract_entry ?Q ?A ?e ?st0) =
          calls ?st0 @ fst (prepared_path ?Q ?e) @
           [WriteFile (target ?Q ?e)
              (snd (snd (extract_loop ?A (fseek_set (position ?st0) (offset ?e)) (buffer ?st0)
                 (size_bytes ?e) [])))]"
      by (rule extract_entry_written(1)) simp
    also have "\<dots> = calls ?st0 @ [WriteFile
         (''C:'' @ [BACKSLASH] @ ''T'' @ [BACKSLASH] @ ''d2e1.tmp'' @ [BACKSLASH] @ ''a.txt'')
         [0, 0, 0, 0]]"
      by (simp only: seek prepared target_def fst_conv snd_conv) (simp add: loop)
    finally show ?thesis
      by (simp add: extract_all_def Let_def)
  qed
  have exe: "main_exe_path (extract_all ?Q ?A [?e] pos) = []" for pos
    unfolding extract_all_def Let_def
    by (subst extract_fold_unflagged) simp_all
  have "launch_and_clean_up ?Q (Suc 0) (extract_all ?Q ?A [?e] pos) =
        LReturn 1 (calls (extract_all ?Q ?A [?e] pos))" for pos
    by (rule launch_without_executable [OF exe quiet_cleanup])
  then show ?thesis
    by (simp only: run calls)
qed

lemma extract_fold_stores:
  assumes "e \<in> set es" and "\<forall>before. l_fopen_wb env before (target env e)"
    and "in_bounds src e"
  shows "WriteFile (target env e) (stored src e) \<in>
         set (calls (fold (extract_entry env src) es st))"
  using assms(1)
proof (induction es arbitrary: st)
  case Nil
  then show ?case by simp
next
  case (Cons x xs)
  show ?case
  proof (cases "e = x")
    case True
    from extract_entry_in_bounds [OF assms(2,3), of st]
    have "WriteFile (target env e) (stored src e) \<in> set (calls (extract_entry env src e st))"
      by simp
    moreover obtain made where
      "calls (fold (extract_entry env src) xs (extract_entry env src e st)) =
       calls (extract_entry env src e st) @ made"
      using extract_fold_calls by blast
    ultimately show ?thesis using True by simp
  next
    case False
    with Cons.prems have "e \<in> set xs" by simp
    then show ?thesis by (simp add: Cons.IH)
  qed
qed

text \<open>
  When the search in a directory succeeds, \<^verbatim>\<open>recursive_delete_directory\<close> ends with
  the attempt to remove the directory.
\<close>

lemma delete_ends_with_removal:
  assumes "recursive_delete_directory env stack path before = Some (removed, after)"
    and "l_find_files env before (snprintf (path @ [BACKSLASH] @ ''*.*'')) \<noteq> None"
  shows "\<exists>made. after = before @ made @ [RemoveDirectoryA path]"
proof (cases stack)
  case 0
  with assms(1) show ?thesis by simp
next
  case (Suc depth)
  from assms(2) obtain found where
    found: "l_find_files env before (snprintf (path @ [BACKSLASH] @ ''*.*'')) = Some found"
    by (cases "l_find_files env before (snprintf (path @ [BACKSLASH] @ ''*.*''))") simp_all
  from assms(1) obtain done' where
    entries: "delete_entries env depth path found before = Some done'"
    and after: "after = done' @ [RemoveDirectoryA path]"
    unfolding Suc recursive_delete_directory.simps found
    by (cases "delete_entries env depth path found before") simp_all
  from delete_entries_calls [OF entries] obtain made where "done' = before @ made"
    by blast
  with after show ?thesis by simp
qed

lemma picky_cleanup:
  "recursive_delete_directory (picky_loader_env file) (Suc (Suc 0))
     (''C:'' @ [BACKSLASH] @ ''T'' @ [BACKSLASH] @ ''d2e1.tmp'') before =
   Some (True,
     before @
     [DeleteFileA (''C:'' @ [BACKSLASH] @ ''T'' @ [BACKSLASH] @ ''d2e1.tmp'' @ [BACKSLASH] @
                   ''a.txt''),
      DeleteFileA (''C:'' @ [BACKSLASH] @ ''T'' @ [BACKSLASH] @ ''d2e1.tmp'' @ [BACKSLASH] @
                   ''Content'' @ [BACKSLASH] @ ''readme.txt''),
      RemoveDirectoryA (''C:'' @ [BACKSLASH] @ ''T'' @ [BACKSLASH] @ ''d2e1.tmp'' @
                        [BACKSLASH] @ ''Content''),
      RemoveDirectoryA (''C:'' @ [BACKSLASH] @ ''T'' @ [BACKSLASH] @ ''d2e1.tmp'')])"
  by (simp add: picky_loader_env_def quiet_loader_env_def snprintf_def MAX_PATH_def)

text \<open>
  The run of the loader on the archive made for \<^verbatim>\<open>Bin/Game.exe\<close>: the program is
  written to the directory \<^verbatim>\<open>Bin\<close> and started there.
\<close>

lemma slash_extracted:
  "loader (quiet_loader_env slash_archive) (Suc 0) =
     LReturn 7
       [GetTempFileNameA (''C:'' @ [BACKSLASH] @ ''T'' @ [BACKSLASH] @ ''d2e1.tmp''),
        DeleteFileA (''C:'' @ [BACKSLASH] @ ''T'' @ [BACKSLASH] @ ''d2e1.tmp''),
        CreateDirectoryA (''C:'' @ [BACKSLASH] @ ''T'' @ [BACKSLASH] @ ''d2e1.tmp''),
        CreateDirectoryA (''C:'' @ [BACKSLASH] @ ''T'' @ [BACKSLASH] @ ''d2e1.tmp'' @
                          [BACKSLASH] @ ''Bin''),
        WriteFile (''C:'' @ [BACKSLASH] @ ''T'' @ [BACKSLASH] @ ''d2e1.tmp'' @
                   [BACKSLASH] @ ''Bin'' @ [BACKSLASH] @ ''Game.exe'') [0x4D, 0x5A],
        CreateDirectoryA (''C:'' @ [BACKSLASH] @ ''T'' @ [BACKSLASH] @ ''d2e1.tmp'' @
                          [BACKSLASH] @ ''Content''),
        WriteFile (''C:'' @ [BACKSLASH] @ ''T'' @ [BACKSLASH] @ ''d2e1.tmp'' @
                   [BACKSLASH] @ ''Content'' @ [BACKSLASH] @ ''readme.txt'')
          (map byte_of_char ''hello''),
        WriteFile (''C:'' @ [BACKSLASH] @ ''T'' @ [BACKSLASH] @ ''d2e1.tmp'' @
                   [BACKSLASH] @ ''a.txt'') [0x41],
        CreateProcessA (''C:'' @ [BACKSLASH] @ ''T'' @ [BACKSLASH] @ ''d2e1.tmp'' @
                        [BACKSLASH] @ ''Bin'' @ [BACKSLASH] @ ''Game.exe'')
          ''Out.exe'' (''C:'' @ [BACKSLASH] @ ''T'' @ [BACKSLASH] @ ''d2e1.tmp'')]"
proof -
  let ?Q = "quiet_loader_env slash_archive"
  let ?g = "\<lparr> offset = 9, size_bytes = 2, is_executable = 1,
        relative_path = char_array ''Bin/Game.exe'' \<rparr>"
  let ?r = "\<lparr> offset = 4, size_bytes = 5, is_executable = 0,
        relative_path = char_array (''Content'' @ [BACKSLASH] @ ''readme.txt'') \<rparr>"
  let ?a = "\<lparr> offset = 3, size_bytes = 1, is_executable = 0,
        relative_path = char_array ''a.txt'' \<rparr>"
  let ?A = "archive_layout example_body slash_manifest"
  have small: "length ?A < 2 ^ 31"
    by (simp add: archive_layout_def example_body_def slash_manifest_def
        MAX_PATH_def MAGIC_BYTES_def)
  have lens: "\<forall>e \<in> set slash_manifest. length (relative_path e) = MAX_PATH"
    by (simp add: slash_manifest_def MAX_PATH_def)
  have run: "loader ?Q (Suc 0) =
             launch_and_clean_up ?Q (Suc 0)
               (extract_all ?Q ?A slash_manifest
                  (length example_body + 8 + sizeof_ManifestEntry * length slash_manifest))"
    by (rule loader_on_layout [OF _ small lens]) (simp_all add: slash_archive_def MAX_PATH_def)
  have prepared:
    "prepared_path ?Q ?g =
     ([CreateDirectoryA (''C:'' @ [BACKSLASH] @ ''T'' @ [BACKSLASH] @ ''d2e1.tmp'' @
                          [BACKSLASH] @ ''Bin'')],
      ''C:'' @ [BACKSLASH] @ ''T'' @ [BACKSLASH] @ ''d2e1.tmp'' @
        [BACKSLASH] @ ''Bin'' @ [BACKSLASH] @ ''Game.exe'')"
    "prepared_path ?Q ?r =
     ([CreateDirectoryA (''C:'' @ [BACKSLASH] @ ''T'' @ [BACKSLASH] @ ''d2e1.tmp'' @
                          [BACKSLASH] @ ''Content'')],
      ''C:'' @ [BACKSLASH] @ ''T'' @ [BACKSLASH] @ ''d2e1.tmp'' @
        [BACKSLASH] @ ''Content'' @ [BACKSLASH] @ ''readme.txt'')"
    "prepared_path ?Q ?a =
     ([], ''C:'' @ [BACKSLASH] @ ''T'' @ [BACKSLASH] @ ''d2e1.tmp'' @ [BACKSLASH] @ ''a.txt'')"
    by (simp_all add: prepared_path_def snprintf_def MAX_PATH_def)
  have bounds: "list_all (in_bounds ?A) slash_manifest"
    by (simp add: in_bounds_def archive_layout_def example_body_def slash_manifest_def)
  have stored: "stored (archive_layout example_body entries) ?g = [0x4D, 0x5A]"
    "stored (archive_layout example_body entries) ?r = map byte_of_char ''hello''"
    "stored (archive_layout example_body entries) ?a = [0x41]" for entries
    by (simp_all add: stored_def archive_layout_def example_body_def)
  have calls: "calls (extract_all ?Q ?A slash_manifest pos) =
     [GetTempFileNameA (l_temp_dir ?Q), DeleteFileA (l_temp_dir ?Q),
      CreateDirectoryA (l_temp_dir ?Q)] @
     concat (map (\<lambda>e. fst (prepared_path ?Q e) @ [WriteFile (target ?Q e) (stored ?A e)])
               slash_manifest)" for pos
    unfolding extract_all_def Let_def
  proof (subst extract_fold_in_bounds)
    show "\<forall>before. list_all (\<lambda>e. l_fopen_wb ?Q before (target ?Q e)) slash_manifest"
      by (simp add: list_all_iff)
    show "list_all (in_bounds ?A) slash_manifest"
      by (rule bounds)
  qed simp
  have explicit: "calls (extract_all ?Q ?A slash_manifest pos) =
       [GetTempFileNameA (''C:'' @ [BACKSLASH] @ ''T'' @ [BACKSLASH] @ ''d2e1.tmp''),
        DeleteFileA (''C:'' @ [BACKSLASH] @ ''T'' @ [BACKSLASH] @ ''d2e1.tmp''),
        CreateDirectoryA (''C:'' @ [BACKSLASH] @ ''T'' @ [BACKSLASH] @ ''d2e1.tmp''),
        CreateDirectoryA (''C:'' @ [BACKSLASH] @ ''T'' @ [BACKSLASH] @ ''d2e1.tmp'' @
                          [BACKSLASH] @ ''Bin''),
        WriteFile (''C:'' @ [BACKSLASH] @ ''T'' @ [BACKSLASH] @ ''d2e1.tmp'' @
                   [BACKSLASH] @ ''Bin'' @ [BACKSLASH] @ ''Game.exe'') [0x4D, 0x5A],
        CreateDirectoryA (''C:'' @ [BACKSLASH] @ ''T'' @ [BACKSLASH] @ ''d2e1.tmp'' @
                          [BACKSLASH] @ ''Content''),
        WriteFile (''C:'' @ [BACKSLASH] @ ''T'' @ [BACKSLASH] @ ''d2e1.tmp'' @
                   [BACKSLASH] @ ''Content'' @ [BACKSLASH] @ ''readme.txt'')
          (map byte_of_char ''hello''),
        WriteFile (''C:'' @ [BACKSLASH] @ ''T'' @ [BACKSLASH] @ ''d2e1.tmp'' @
                   [BACKSLASH] @ ''a.txt'') [0x41]]" for pos
    by (simp only: calls)
       (simp only: slash_manifest_def list.map concat.simps prepared stored target_def
          fst_conv snd_conv quiet_env_fields, simp)
  have exe: "main_exe_path (extract_all ?Q ?A slash_manifest pos) =
      ''C:'' @ [BACKSLASH] @ ''T'' @ [BACKSLASH] @ ''d2e1.tmp'' @
        [BACKSLASH] @ ''Bin'' @ [BACKSLASH] @ ''Game.exe''" for pos
  proof -
    have "main_exe_path (extract_all ?Q ?A slash_manifest pos) = target ?Q ?g"
      unfolding slash_manifest_def
      by (rule extract_all_flagged_first) simp_all
    then show ?thesis by (simp only: target_def prepared snd_conv)
  qed
  have "launch_and_clean_up ?Q (Suc 0) (extract_all ?Q ?A slash_manifest pos) =
        LReturn 7 (calls (extract_all ?Q ?A slash_manifest pos) @
          [CreateProcessA (main_exe_path (extract_all ?Q ?A slash_manifest pos))
             (l_cmd_line ?Q) (l_temp_dir ?Q)])" for pos
  proof (rule launch_exited)
    show "main_exe_path (extract_all ?Q ?A slash_manifest pos) \<noteq> []"
      by (simp only: exe) simp
    show "l_create_process ?Q (calls (extract_all ?Q ?A slash_manifest pos))
            (main_exe_path (extract_all ?Q ?A slash_manifest pos)) (l_cmd_line ?Q)
            (l_temp_dir ?Q) = Exited 7"
      by (simp only: quiet_env_fields)
    show "recursive_delete_directory ?Q (Suc 0) (l_temp_dir ?Q)
           (calls (extract_all ?Q ?A slash_manifest pos) @
            [CreateProcessA (main_exe_path (extract_all ?Q ?A slash_manifest pos))
               (l_cmd_line ?Q) (l_temp_dir ?Q)]) =
          Some (False, calls (extract_all ?Q ?A slash_manifest pos) @
            [CreateProcessA (main_exe_path (extract_all ?Q ?A slash_manifest pos))
               (l_cmd_line ?Q) (l_temp_dir ?Q)])"
      by (rule quiet_cleanup)
  qed
  then show ?thesis
    by (simp only: run explicit exe quiet_env_fields) simp
qed

section \<open>Facts about extracting what was packed\<close>

lemma packed_entries_append:
  "packed_entries env k pos (xs @ ys) =
     packed_entries env k pos xs @
     packed_entries env (k + length xs)
       (pos + length (concat (map (\<lambda>rf. payload env (snd rf)) xs))) ys"
  by (induction xs arbitrary: k pos) (auto simp: add.assoc)

lemma packed_entries_origin:
  "e \<in> set (packed_entries env k pos fs) \<Longrightarrow>
   \<exists>k' pos' rf. rf \<in> set fs \<and> e = new_entry env k' pos' (fst rf) (snd rf) 0"
proof (induction fs arbitrary: k pos)
  case Nil
  then show ?case by simp
next
  case (Cons rf fs)
  obtain relative path where rf: "rf = (relative, path)" by (cases rf)
  from Cons.prems consider "e = new_entry env k pos relative path 0"
    | "e \<in> set (packed_entries env (Suc k) (pos + length (payload env path)) fs)"
    by (auto simp: rf)
  then show ?case
  proof cases
    case 1
    then have "rf \<in> set (rf # fs) \<and> e = new_entry env k pos (fst rf) (snd rf) 0"
      by (simp add: rf)
    then show ?thesis by blast
  next
    case 2
    from Cons.IH [OF this] obtain k' pos' rf' where
      "rf' \<in> set fs" "e = new_entry env k' pos' (fst rf') (snd rf') 0"
      by blast
    then have "rf' \<in> set (rf # fs) \<and> e = new_entry env k' pos' (fst rf') (snd rf') 0"
      by simp
    then show ?thesis by blast
  qed
qed

lemma stored_in_layout:
  assumes "length (archive_layout (before @ content @ after) entries) < 2 ^ 31"
    and "offset e = ftell (length before)" and "size_bytes e = ftell (length content)"
  shows "stored (archive_layout (before @ content @ after) entries) e = content"
    and "in_bounds (archive_layout (before @ content @ after) entries) e"
proof -
  let ?A = "archive_layout (before @ content @ after) entries"
  have len: "length before + length content \<le> length ?A"
    by (simp add: archive_layout_def)
  with assms(1) have b: "length before < 2 ^ 31" and c: "length content < 2 ^ 31"
    by simp_all
  have off: "unat (offset e) = length before"
    by (simp only: assms(2) unat_ftell_small [OF b])
  have sz: "unat (size_bytes e) = length content"
    by (simp only: assms(3) unat_ftell_small [OF c])
  show "stored ?A e = content"
    by (simp add: stored_def off sz archive_layout_def)
  show "in_bounds ?A e"
    unfolding in_bounds_def off sz using b len by simp
qed

lemma new_entry_target:
  assumes "NUL \<notin> set relative" and "SLASH \<notin> set relative"
    and "length (l_temp_dir lenv) + 1 + length relative < MAX_PATH"
  shows "target lenv (new_entry env k pos relative path flag) =
         l_temp_dir lenv @ [BACKSLASH] @ relative"
proof -
  have "entry_name (new_entry env k pos relative path flag) = relative"
    using assms(1) by (simp add: entry_name_def)
  with assms(2,3) show ?thesis
    by (simp add: target_plain)
qed

lemma written_then_untouched:
  assumes "path \<notin> set (write_paths made)"
  shows "written (before @ [WriteFile path bytes] @ made) path = Some bytes"
proof -
  have "written ((before @ [WriteFile path bytes]) @ made) path =
        written (before @ [WriteFile path bytes]) path"
    using assms by (rule written_other)
  then show ?thesis by simp
qed

lemma extracted_entry:
  assumes "\<forall>before. l_fopen_wb lenv before (target lenv e)"
    and "in_bounds src e"
    and "target lenv e \<notin> target lenv ` set later"
  shows "written (calls_of (launch_and_clean_up lenv lstack
           (extract_all lenv src (earlier @ e # later) pos))) (target lenv e) =
         Some (stored src e)"
proof -
  let ?T = "target lenv e"
  let ?E = "extract_entry lenv src"
  define st0 where "st0 = \<lparr> position = pos, buffer = l_heap_buffer lenv,
             calls = [GetTempFileNameA (l_temp_dir lenv), DeleteFileA (l_temp_dir lenv),
                      CreateDirectoryA (l_temp_dir lenv)],
             main_exe_path = [] \<rparr>"
  define st1 where "st1 = fold ?E earlier st0"
  define st2 where "st2 = ?E e st1"
  define st3 where "st3 = fold ?E later st2"
  have all: "extract_all lenv src (earlier @ e # later) pos = st3"
    by (simp add: extract_all_def Let_def st0_def st1_def st2_def st3_def)
  from extract_entry_in_bounds [OF assms(1,2), of st1]
  have c2: "calls st2 = calls st1 @ fst (prepared_path lenv e) @ [WriteFile ?T (stored src e)]"
    by (simp only: st2_def)
  from extract_fold_calls [of lenv src later st2] obtain made where
    c3: "calls st3 = calls st2 @ made"
    and made: "set (write_paths made) \<subseteq> target lenv ` set later"
    by (auto simp: st3_def)
  from launch_calls [of lenv lstack st3] obtain made' where
    c4: "calls_of (launch_and_clean_up lenv lstack st3) = calls st3 @ made'"
    and made': "write_paths made' = []"
    by blast
  from made assms(3) have "?T \<notin> set (write_paths made)"
    by blast
  with made' have "?T \<notin> set (write_paths (made @ made'))"
    by simp
  then have "written ((calls st1 @ fst (prepared_path lenv e)) @
                      [WriteFile ?T (stored src e)] @ (made @ made')) ?T =
             Some (stored src e)"
    by (rule written_then_untouched)
  then have "written (calls_of (launch_and_clean_up lenv lstack st3)) ?T = Some (stored src e)"
    by (simp only: c4 c3 c2 append_assoc)
  then show ?thesis
    by (simp only: all)
qed

lemma extracted_from_packed:
  assumes fs: "fs = fs1 @ (relative, path) # fs2"
    and small: "length (archive_layout (packed_body env main_exe fs)
                  (packed_manifest env main_exe fs)) < 2 ^ 31"
    and distinct: "distinct (map fst fs)"
    and nul: "NUL \<notin> set (concat (map fst fs))"
    and slash: "SLASH \<notin> set (concat (map fst fs))"
    and fit: "list_all (\<lambda>rf. length (l_temp_dir lenv) + 1 + length (fst rf) < MAX_PATH) fs"
    and creat: "\<forall>before. l_fopen_wb lenv before (l_temp_dir lenv @ [BACKSLASH] @ relative)"
  shows "written (calls_of (launch_and_clean_up lenv lstack
           (extract_all lenv (archive_layout (packed_body env main_exe fs)
                  (packed_manifest env main_exe fs)) (packed_manifest env main_exe fs) pos)))
           (l_temp_dir lenv @ [BACKSLASH] @ relative) = Some (payload env path)"
proof -
  let ?A = "archive_layout (packed_body env main_exe fs) (packed_manifest env main_exe fs)"
  define content where "content = payload env path"
  let ?T = "l_temp_dir lenv @ [BACKSLASH] @ relative"
  let ?E = "extract_entry lenv ?A"
  define pos0 where "pos0 = length (payload env ''loader.exe'')"
  define before where
    "before = payload env ''loader.exe'' @ concat (map (\<lambda>rf. payload env (snd rf)) fs1)"
  define after where
    "after = concat (map (\<lambda>rf. payload env (snd rf)) fs2) @ payload env main_exe"
  define eF where "eF = new_entry env (length fs1) (length before) relative path 0"
  define P1 where "P1 = packed_entries env 0 pos0 fs1"
  define P2 where "P2 = packed_entries env (Suc (length fs1))
                          (length before + length (payload env path)) fs2"
  define exe where "exe = hd (packed_manifest env main_exe fs)"
  have content: "payload env path = content"
    by (simp add: content_def)
  have body: "packed_body env main_exe fs = before @ content @ after"
    by (simp add: packed_body_def fs before_def after_def content)
  have entries: "packed_entries env 0 pos0 fs = P1 @ eF # P2"
    by (simp add: fs packed_entries_append P1_def P2_def eF_def before_def pos0_def)
  have manifest: "packed_manifest env main_exe fs = (exe # rev P2) @ eF # rev P1"
    by (simp add: packed_manifest_def exe_def entries pos0_def [symmetric])
  have small': "length (archive_layout (before @ content @ after)
                  (packed_manifest env main_exe fs)) < 2 ^ 31"
    using small by (simp only: body)
  have "stored ?A eF = content \<and> in_bounds ?A eF"
  proof (cases "fopen_rb env path")
    case None
    then have "size_bytes eF = 0" "content = []"
      by (simp_all add: eF_def content_def payload_def)
    then show ?thesis
      by (simp add: stored_def in_bounds_def)
  next
    case (Some opened)
    then have "content = opened"
      by (simp add: content_def payload_def)
    with new_entry_opened [OF Some] have
      off: "offset eF = ftell (length before)" and sz: "size_bytes eF = ftell (length content)"
      by (simp_all add: eF_def)
    from stored_in_layout [OF small' off sz] show ?thesis
      by (simp only: body simp_thms)
  qed
  then have stored: "stored ?A eF = content" and bounds: "in_bounds ?A eF"
    by simp_all
  have rel: "NUL \<notin> set relative" "SLASH \<notin> set relative"
    "length (l_temp_dir lenv) + 1 + length relative < MAX_PATH"
    using nul slash fit by (simp_all add: fs)
  have target: "target lenv eF = ?T"
    unfolding eF_def using rel by (rule new_entry_target)
  have others: "target lenv e \<noteq> ?T" if "e \<in> set P1" for e
  proof -
    from packed_entries_origin [OF that [unfolded P1_def]] obtain k' pos' rf where
      rf: "rf \<in> set fs1" and e: "e = new_entry env k' pos' (fst rf) (snd rf) 0"
      by blast
    have "NUL \<notin> set (fst rf)" "SLASH \<notin> set (fst rf)"
      "length (l_temp_dir lenv) + 1 + length (fst rf) < MAX_PATH"
      using nul slash fit rf by (auto simp: fs list_all_iff)
    then have "target lenv e = l_temp_dir lenv @ [BACKSLASH] @ fst rf"
      unfolding e by (rule new_entry_target)
    moreover have "fst rf \<noteq> relative"
      using distinct rf by (auto simp: fs)
    ultimately show ?thesis by simp
  qed
  have "target lenv eF \<notin> target lenv ` set (rev P1)"
    using others by (fastforce simp: target)
  moreover have "\<forall>before. l_fopen_wb lenv before (target lenv eF)"
    using creat by (simp add: target)
  ultimately have "written (calls_of (launch_and_clean_up lenv lstack
           (extract_all lenv ?A ((exe # rev P2) @ eF # rev P1) pos))) (target lenv eF) =
         Some (stored ?A eF)"
    using bounds by (intro extracted_entry)
  then show ?thesis
    by (simp only: manifest [symmetric] target stored content)
qed

lemma locked_archive_small: "length locked_archive < 2 ^ 31"
  by (simp add: locked_archive_def archive_layout_def locked_manifest_def locked_body_def
      MAX_PATH_def MAGIC_BYTES_def)

text \<open>
  A full path of fewer than \<open>MAX_PATH - 1\<close> characters has not been cut, neither has
  the relative path next to it: the full path is the directory walked, a backslash
  (two at the top level, where \<^verbatim>\<open>current_path\<close> is empty) and the relative path.
\<close>

lemma snprintf_uncut: "length (snprintf s) < MAX_PATH - 1 \<Longrightarrow> snprintf s = s"
  by (simp add: snprintf_def min_def split: if_splits)

lemma snprintf_fits: "length s < MAX_PATH - 1 \<Longrightarrow> snprintf s = s"
  by (simp add: snprintf_def)

lemma walk_files_uncut:
  "walk_files env depth base_path current_path = Some fs \<Longrightarrow>
   (r, p) \<in> set fs \<Longrightarrow> length p < MAX_PATH - 1 \<Longrightarrow>
   (\<exists>rest. r = current_path @ (if length current_path > 0 then [BACKSLASH] else []) @ rest) \<and>
   (p = base_path @ [BACKSLASH] @ r \<or>
    current_path = [] \<and> p = base_path @ [BACKSLASH, BACKSLASH] @ r)"
  and walk_files_entries_uncut:
  "walk_files_entries env depth base_path current_path found = Some fs \<Longrightarrow>
   (r, p) \<in> set fs \<Longrightarrow> length p < MAX_PATH - 1 \<Longrightarrow>
   (\<exists>rest. r = current_path @ (if length current_path > 0 then [BACKSLASH] else []) @ rest) \<and>
   (p = base_path @ [BACKSLASH] @ r \<or>
    current_path = [] \<and> p = base_path @ [BACKSLASH, BACKSLASH] @ r)"
proof (induction env depth base_path current_path and env depth base_path current_path found
    arbitrary: fs and fs rule: walk_files_walk_files_entries.induct)
  case (1 env base_path current_path)
  then show ?case by simp
next
  case (2 env depth base_path current_path)
  then show ?case by (auto split: option.splits)
next
  case (3 env depth base_path current_path)
  then show ?case by simp
next
  case (4 env depth base_path current_path cFileName is_dir others)
  show ?case
  proof (cases "cFileName \<noteq> ''.'' \<and> cFileName \<noteq> ''..''")
    case False
    with 4 show ?thesis by auto
  next
    case named: True
    define sep where "sep = (if length current_path > 0 then [BACKSLASH] else [])"
    define full_path where
      "full_path = snprintf (base_path @ [BACKSLASH] @ current_path @ [BACKSLASH] @ cFileName)"
    define relative where
      "relative = snprintf (current_path @ (if length current_path > 0 then [BACKSLASH] else [])
                        @ cFileName)"
    note step = walk_entries_step(2) [OF named full_path_def relative_def]
    show ?thesis
    proof (cases is_dir)
      case True
      from "4.prems"(1) True obtain below beside where
        below: "walk_files env depth base_path relative = Some below"
        and beside: "walk_files_entries env depth base_path current_path others = Some beside"
        and fs: "fs = below @ beside"
        by (auto simp: step simp del: walk_files_entries.simps split: option.splits)
      from "4.prems"(2) consider "(r, p) \<in> set below" | "(r, p) \<in> set beside"
        by (auto simp: fs)
      then show ?thesis
      proof cases
        case 1
        from "4.IH"(1) [OF named full_path_def relative_def True below 1 "4.prems"(3)]
        obtain rest where
          r: "r = relative @ (if length relative > 0 then [BACKSLASH] else []) @ rest"
          and p: "p = base_path @ [BACKSLASH] @ r \<or>
                  relative = [] \<and> p = base_path @ [BACKSLASH, BACKSLASH] @ r"
          by blast
        from p have "length r < length p" by auto
        with "4.prems"(3) r have "length relative < MAX_PATH - 1"
          by simp
        then have uncut: "relative = current_path @ sep @ cFileName"
          unfolding relative_def sep_def by (rule snprintf_uncut)
        have "r = current_path @ (if length current_path > 0 then [BACKSLASH] else []) @
                  (cFileName @ (if length relative > 0 then [BACKSLASH] else []) @ rest)"
          by (simp add: r uncut sep_def)
        moreover have "p = base_path @ [BACKSLASH] @ r \<or>
                       current_path = [] \<and> p = base_path @ [BACKSLASH, BACKSLASH] @ r"
          using p uncut by auto
        ultimately show ?thesis by blast
      next
        case 2
        from "4.IH"(2) [OF named full_path_def relative_def True below beside 2 "4.prems"(3)]
        show ?thesis .
      qed
    next
      case False
      from "4.prems"(1) False obtain beside where
        beside: "walk_files_entries env depth base_path current_path others = Some beside"
        and fs: "fs = (relative, full_path) # beside"
        by (auto simp: step simp del: walk_files_entries.simps split: option.splits)
      from "4.prems"(2) consider "r = relative" "p = full_path" | "(r, p) \<in> set beside"
        by (auto simp: fs)
      then show ?thesis
      proof cases
        case 1
        from "4.prems"(3) have
          p: "p = base_path @ [BACKSLASH] @ current_path @ [BACKSLASH] @ cFileName"
          unfolding 1(2) full_path_def by (rule snprintf_uncut)
        with "4.prems"(3) have "length (current_path @ sep @ cFileName) < MAX_PATH - 1"
          by (simp add: sep_def)
        then have r: "r = current_path @ sep @ cFileName"
          unfolding 1(1) relative_def sep_def by (rule snprintf_fits)
        have "r = current_path @ (if length current_path > 0 then [BACKSLASH] else []) @
                  cFileName"
          by (simp add: r sep_def)
        moreover have "p = base_path @ [BACKSLASH] @ r \<or>
                       current_path = [] \<and> p = base_path @ [BACKSLASH, BACKSLASH] @ r"
          by (simp add: p r sep_def)
        ultimately show ?thesis by blast
      next
        case 2
        from "4.IH"(3) [OF named full_path_def relative_def False beside 2 "4.prems"(3)]
        show ?thesis .
      qed
    qed
  qed
qed

section \<open>The loader and its footer\<close>

text \<open>
  Claim C3. When the loader can open its own file, the file has at least the 16
  bytes of a footer, and the magic field of its last 16 bytes does not hold the
  signature \<^verbatim>\<open>DIR2EXE\<close>, the loader returns 2 and has made no call that changes the file
  system: no temporary directory, no extracted file.
\<close>

theorem bad_magic_exit_2:
  assumes "l_self env = Some file"
    and "sizeof_ArchiveFooter \<le> length file"
    and "c_str (magic (footer_of_bytes (drop (length file - sizeof_ArchiveFooter) file)))
         \<noteq> MAGIC_BYTES"
  shows "loader env stack = LReturn 2 []"
  using assms by (simp add: loader_def read_footer_last16)

text \<open>Sixteen zero bytes are such a file.\<close>

theorem bad_magic_exit_2_example:
  "l_self (quiet_loader_env (replicate 16 0)) = Some (replicate 16 0) \<and>
   sizeof_ArchiveFooter \<le> length (replicate 16 (0 :: byte)) \<and>
   c_str (magic (footer_of_bytes
      (drop (length (replicate 16 (0 :: byte)) - sizeof_ArchiveFooter) (replicate 16 0))))
     \<noteq> MAGIC_BYTES \<and>
   loader (quiet_loader_env (replicate 16 0)) 0 = LReturn 2 []"
proof -
  have a: "l_self (quiet_loader_env (replicate 16 0)) = Some (replicate 16 0)"
    by (simp add: quiet_loader_env_def)
  have b: "sizeof_ArchiveFooter \<le> length (replicate 16 (0 :: byte))"
    by (simp add: sizeof_ArchiveFooter_def)
  have c: "c_str (magic (footer_of_bytes
      (drop (length (replicate 16 (0 :: byte)) - sizeof_ArchiveFooter) (replicate 16 0))))
     \<noteq> MAGIC_BYTES"
    by code_simp
  show ?thesis
    using bad_magic_exit_2 [OF a b c] a b c by (intro conjI)
qed

section \<open>The loader's exit code\<close>

text \<open>
  Claim C7, as the code has it. Take an archive as the packer lays it out: a body,
  an entry count, full-size entries and the footer, shorter than 2 GiB; let the
  block for the manifest be granted and the final removal of the temporary
  directory stay within the stack. Then the loader returns the child's exit code
  when the child is started and exits; it returns 1 when \<^verbatim>\<open>CreateProcessA\<close> fails
  and when no path of a flagged entry was recorded, which is so when no entry is
  flagged. Whatever the file, the loader returns 1 when it cannot open it, and 2
  when the magic of its last 16 bytes is not the signature.
\<close>

theorem loader_exit_codes:
  assumes "l_self env = Some (archive_layout body entries)"
    and "length (archive_layout body entries) < 2 ^ 31"
    and "list_all (\<lambda>e. length (relative_path e) = MAX_PATH) entries"
    and "l_malloc env (sizeof_ManifestEntry * length entries)"
    and "length (l_temp_dir env) < MAX_PATH - 1"
    and "\<forall>before. recursive_delete_directory env stack (l_temp_dir env) before \<noteq> None"
    and "st = extract_all env (archive_layout body entries) entries
                (length body + 8 + sizeof_ManifestEntry * length entries)"
    and "child = l_create_process env (calls st) (main_exe_path st) (l_cmd_line env)
                   (l_temp_dir env)"
  shows "(main_exe_path st \<noteq> [] \<and> child = Exited code \<longrightarrow>
            (\<exists>after. loader env stack = LReturn code after)) \<and>
         (main_exe_path st \<noteq> [] \<and> child = StartFailed \<longrightarrow>
            (\<exists>after. loader env stack = LReturn 1 after)) \<and>
         (main_exe_path st = [] \<longrightarrow> (\<exists>after. loader env stack = LReturn 1 after)) \<and>
         (list_all (\<lambda>e. is_executable e = 0) entries \<longrightarrow> main_exe_path st = []) \<and>
         (l_self other = None \<longrightarrow> loader other stack' = LReturn 1 []) \<and>
         (l_self other = Some file \<and> sizeof_ArchiveFooter \<le> length file \<and>
          c_str (magic (footer_of_bytes (drop (length file - sizeof_ArchiveFooter) file)))
            \<noteq> MAGIC_BYTES \<longrightarrow>
          loader other stack' = LReturn 2 [])"
proof -
  have lens: "\<forall>e \<in> set entries. length (relative_path e) = MAX_PATH"
    using assms(3) by (simp add: list_all_iff)
  have run: "loader env stack = launch_and_clean_up env stack st"
    unfolding assms(7) using assms(1,2) lens assms(4,5) by (rule loader_on_layout)
  have cleanup: "\<exists>removed after.
      recursive_delete_directory env stack (l_temp_dir env) before = Some (removed, after)"
    for before
  proof -
    from assms(6) have "recursive_delete_directory env stack (l_temp_dir env) before \<noteq> None"
      by (rule spec)
    then obtain result where
      "recursive_delete_directory env stack (l_temp_dir env) before = Some result"
      by (cases "recursive_delete_directory env stack (l_temp_dir env) before") simp_all
    then show ?thesis by (cases result) simp
  qed
  have exited: "\<exists>after. loader env stack = LReturn code after"
    if "main_exe_path st \<noteq> []" "child = Exited code"
  proof -
    obtain removed after where
      "recursive_delete_directory env stack (l_temp_dir env)
           (calls st @ [CreateProcessA (main_exe_path st) (l_cmd_line env) (l_temp_dir env)])
         = Some (removed, after)"
      using cleanup by blast
    with that show ?thesis
      unfolding run assms(8) by (blast intro: launch_exited)
  qed
  have failed: "\<exists>after. loader env stack = LReturn 1 after"
    if "main_exe_path st \<noteq> []" "child = StartFailed"
  proof -
    obtain removed after where
      "recursive_delete_directory env stack (l_temp_dir env)
           (calls st @ [CreateProcessA (main_exe_path st) (l_cmd_line env) (l_temp_dir env)])
         = Some (removed, after)"
      using cleanup by blast
    with that show ?thesis
      unfolding run assms(8) by (blast intro: launch_failed)
  qed
  have none: "\<exists>after. loader env stack = LReturn 1 after" if "main_exe_path st = []"
  proof -
    obtain removed after where
      "recursive_delete_directory env stack (l_temp_dir env) (calls st) = Some (removed, after)"
      using cleanup by blast
    with that show ?thesis
      unfolding run by (blast intro: launch_without_executable)
  qed
  have unflagged: "main_exe_path st = []" if "list_all (\<lambda>e. is_executable e = 0) entries"
    using that by (simp add: assms(7) extract_all_def Let_def extract_fold_unflagged)
  have unopened: "loader other stack' = LReturn 1 []" if "l_self other = None"
    using that by (simp add: loader_def)
  have invalid: "loader other stack' = LReturn 2 []"
    if "l_self other = Some file" "sizeof_ArchiveFooter \<le> length file"
      "c_str (magic (footer_of_bytes (drop (length file - sizeof_ArchiveFooter) file)))
            \<noteq> MAGIC_BYTES"
    using that by (simp add: loader_def read_footer_last16)
  from exited failed none unflagged unopened invalid show ?thesis
    by blast
qed

text \<open>The example archive on the quiet host: the child's 7 is returned.\<close>

theorem loader_exit_codes_example:
  "l_self (quiet_loader_env example_archive) = Some (archive_layout example_body example_manifest) \<and>
   length (archive_layout example_body example_manifest) < 2 ^ 31 \<and>
   list_all (\<lambda>e. length (relative_path e) = MAX_PATH) example_manifest \<and>
   l_malloc (quiet_loader_env example_archive) (sizeof_ManifestEntry * length example_manifest) \<and>
   length (l_temp_dir (quiet_loader_env example_archive)) < MAX_PATH - 1 \<and>
   (\<forall>before. recursive_delete_directory (quiet_loader_env example_archive) (Suc 0)
      (l_temp_dir (quiet_loader_env example_archive)) before \<noteq> None) \<and>
   main_exe_path (extract_all (quiet_loader_env example_archive)
      (archive_layout example_body example_manifest) example_manifest
      (length example_body + 8 + sizeof_ManifestEntry * length example_manifest)) \<noteq> [] \<and>
   l_create_process (quiet_loader_env example_archive)
     (calls (extract_all (quiet_loader_env example_archive)
        (archive_layout example_body example_manifest) example_manifest
        (length example_body + 8 + sizeof_ManifestEntry * length example_manifest)))
     (main_exe_path (extract_all (quiet_loader_env example_archive)
        (archive_layout example_body example_manifest) example_manifest
        (length example_body + 8 + sizeof_ManifestEntry * length example_manifest)))
     (l_cmd_line (quiet_loader_env example_archive))
     (l_temp_dir (quiet_loader_env example_archive)) = Exited 7 \<and>
   (\<exists>after. loader (quiet_loader_env example_archive) (Suc 0) = LReturn 7 after)"
proof -
  let ?Q = "quiet_loader_env example_archive"
  let ?st = "extract_all ?Q (archive_layout example_body example_manifest) example_manifest
      (length example_body + 8 + sizeof_ManifestEntry * length example_manifest)"
  have h1: "l_self ?Q = Some (archive_layout example_body example_manifest)"
    by (simp add: example_archive_def)
  have h2: "length (archive_layout example_body example_manifest) < 2 ^ 31"
    using example_archive_small by (simp add: example_archive_def)
  have h3: "list_all (\<lambda>e. length (relative_path e) = MAX_PATH) example_manifest"
    using example_manifest_lengths by (simp add: list_all_iff)
  have h4: "l_malloc ?Q (sizeof_ManifestEntry * length example_manifest)"
    by simp
  have h5: "length (l_temp_dir ?Q) < MAX_PATH - 1"
    by (simp add: MAX_PATH_def)
  have h6: "\<forall>before. recursive_delete_directory ?Q (Suc 0) (l_temp_dir ?Q) before \<noteq> None"
    by (simp only: quiet_cleanup) simp
  have flagged: "main_exe_path ?st \<noteq> []"
    by (simp only: example_main_exe_path) simp
  have child: "l_create_process ?Q (calls ?st) (main_exe_path ?st) (l_cmd_line ?Q) (l_temp_dir ?Q)
               = Exited 7"
    by (simp only: quiet_env_fields)
  from loader_exit_codes [OF h1 h2 h3 h4 h5 h6 refl refl, of 7] flagged child
  have "\<exists>after. loader ?Q (Suc 0) = LReturn 7 after"
    by blast
  with h1 h2 h3 h4 h5 h6 flagged child show ?thesis
    by (intro conjI)
qed

text \<open>
  Claim C7 as stated has the loader return 2 for an invalid archive. The file of 304
  bytes whose only entry has offset 1000 and size 4 is invalid, the entry lies
  outside the file; its footer has the signature, and the loader returns 1.
\<close>

theorem corrupt_archive_exit_1:
  "l_self (quiet_loader_env stray_archive) = Some stray_archive \<and>
   length stray_archive = 304 \<and>
   loader_manifest (quiet_loader_env stray_archive) stray_archive =
     [\<lparr> offset = 1000, size_bytes = 4, is_executable = 0,
        relative_path = char_array ''a.txt'' \<rparr>] \<and>
   \<not> in_bounds stray_archive
       \<lparr> offset = 1000, size_bytes = 4, is_executable = 0,
         relative_path = char_array ''a.txt'' \<rparr> \<and>
   c_str (magic (footer_of_bytes
     (drop (length stray_archive - sizeof_ArchiveFooter) stray_archive))) = MAGIC_BYTES \<and>
   loader (quiet_loader_env stray_archive) (Suc 0) =
     LReturn 1
       [GetTempFileNameA (''C:'' @ [BACKSLASH] @ ''T'' @ [BACKSLASH] @ ''d2e1.tmp''),
        DeleteFileA (''C:'' @ [BACKSLASH] @ ''T'' @ [BACKSLASH] @ ''d2e1.tmp''),
        CreateDirectoryA (''C:'' @ [BACKSLASH] @ ''T'' @ [BACKSLASH] @ ''d2e1.tmp''),
        WriteFile (''C:'' @ [BACKSLASH] @ ''T'' @ [BACKSLASH] @ ''d2e1.tmp'' @
                   [BACKSLASH] @ ''a.txt'')
          [0, 0, 0, 0]]"
proof -
  let ?e = "\<lparr> offset = 1000, size_bytes = 4, is_executable = 0,
          relative_path = char_array ''a.txt'' \<rparr>"
  have len: "length (archive_layout [0x4D, 0x5A, 0x90] [?e]) = 304"
    by (simp add: archive_layout_def MAX_PATH_def MAGIC_BYTES_def)
  have small: "length (archive_layout [0x4D, 0x5A, 0x90] [?e]) < 2 ^ 31"
    by (simp only: len) simp
  have lens: "\<forall>e \<in> set [?e]. length (relative_path e) = MAX_PATH"
    by (simp add: MAX_PATH_def)
  have self: "l_self (quiet_loader_env stray_archive) = Some stray_archive"
    by simp
  have l: "length stray_archive = 304"
    by (simp only: stray_archive_def len)
  have read: "loader_manifest (quiet_loader_env stray_archive) stray_archive = [?e]"
    unfolding stray_archive_def using small lens by (rule loader_manifest_layout)
  have outside: "\<not> in_bounds stray_archive ?e"
    by (simp add: in_bounds_def l)
  have sig: "c_str (magic (footer_of_bytes
     (drop (length stray_archive - sizeof_ArchiveFooter) stray_archive))) = MAGIC_BYTES"
    unfolding stray_archive_def by (simp only: footer_of_layout(2) [OF lens]) simp
  from self l read outside sig stray_run show ?thesis
    by (intro conjI)
qed

section \<open>Entries whose file cannot be created\<close>

text \<open>
  Claim C10. An entry whose target cannot be opened for writing is skipped: the round
  of the loop leaves the state as it was but for the \<^verbatim>\<open>CreateDirectoryA\<close> calls already
  made. When this happens to every flagged entry of an archive as the packer lays
  it out, the loader starts no process and returns 1. Every entry whose target can
  be opened and whose offset and size lie within the file has been written all the
  same, with the bytes that its offset and size select. The calls end with those
  of \<^verbatim>\<open>recursive_delete_directory\<close> on the temporary directory, the last of which,
  when the search in the directory succeeds, is the attempt to remove it.
\<close>

theorem unopened_target_skipped:
  assumes "l_self env = Some (archive_layout body entries)"
    and "length (archive_layout body entries) < 2 ^ 31"
    and "list_all (\<lambda>e. length (relative_path e) = MAX_PATH) entries"
    and "l_malloc env (sizeof_ManifestEntry * length entries)"
    and "length (l_temp_dir env) < MAX_PATH - 1"
    and "\<forall>before. recursive_delete_directory env stack (l_temp_dir env) before \<noteq> None"
    and "\<forall>before. list_all (\<lambda>e. is_executable e = 0 \<or>
             \<not> l_fopen_wb env before (target env e)) entries"
    and "st = extract_all env (archive_layout body entries) entries
                (length body + 8 + sizeof_ManifestEntry * length entries)"
  shows "(\<not> l_fopen_wb env (calls st' @ fst (prepared_path env e)) (target env e) \<longrightarrow>
            extract_entry env src e st' =
              st'\<lparr>calls := calls st' @ fst (prepared_path env e)\<rparr>) \<and>
         (\<exists>removed after.
            recursive_delete_directory env stack (l_temp_dir env) (calls st) =
              Some (removed, after) \<and>
            loader env stack = LReturn 1 after \<and> \<not> starts_process after \<and>
            (\<forall>e'. e' \<in> set entries \<and> (\<forall>before. l_fopen_wb env before (target env e')) \<and>
                  in_bounds (archive_layout body entries) e' \<longrightarrow>
                  WriteFile (target env e') (stored (archive_layout body entries) e')
                    \<in> set after) \<and>
            (l_find_files env (calls st)
               (snprintf (l_temp_dir env @ [BACKSLASH] @ ''*.*'')) \<noteq> None \<longrightarrow>
             (\<exists>made. after = calls st @ made @ [RemoveDirectoryA (l_temp_dir env)])))"
proof -
  have lens: "\<forall>e \<in> set entries. length (relative_path e) = MAX_PATH"
    using assms(3) by (simp add: list_all_iff)
  have run: "loader env stack = launch_and_clean_up env stack st"
    unfolding assms(8) using assms(1,2) lens assms(4,5) by (rule loader_on_layout)
  have none: "main_exe_path st = []"
    using extract_fold_refused [OF assms(7)] by (simp add: assms(8) extract_all_def Let_def)
  from assms(6) have "recursive_delete_directory env stack (l_temp_dir env) (calls st) \<noteq> None"
    by (rule spec)
  then obtain result where
    "recursive_delete_directory env stack (l_temp_dir env) (calls st) = Some result"
    by (cases "recursive_delete_directory env stack (l_temp_dir env) (calls st)") simp_all
  then obtain removed after where
    clean: "recursive_delete_directory env stack (l_temp_dir env) (calls st) =
            Some (removed, after)"
    by (cases result) simp
  have ret: "loader env stack = LReturn 1 after"
    unfolding run using none clean by (rule launch_without_executable)
  from delete_calls [OF clean] obtain made where
    made: "after = calls st @ made" "write_paths made = []" "\<not> starts_process made"
    by blast
  have quiet: "\<not> starts_process after"
    using made extract_all_quiet [of env _ entries] by (simp add: assms(8))
  have others: "WriteFile (target env e') (stored (archive_layout body entries) e') \<in> set after"
    if "e' \<in> set entries" "\<forall>before. l_fopen_wb env before (target env e')"
      "in_bounds (archive_layout body entries) e'" for e'
    using extract_fold_stores [OF that] made(1)
    by (simp add: assms(8) extract_all_def Let_def)
  have removal: "\<exists>made. after = calls st @ made @ [RemoveDirectoryA (l_temp_dir env)]"
    if "l_find_files env (calls st) (snprintf (l_temp_dir env @ [BACKSLASH] @ ''*.*'')) \<noteq> None"
    using clean that by (rule delete_ends_with_removal)
  have skip: "extract_entry env src e st' = st'\<lparr>calls := calls st' @ fst (prepared_path env e)\<rparr>"
    if "\<not> l_fopen_wb env (calls st' @ fst (prepared_path env e)) (target env e)"
    using that by (rule extract_entry_skipped)
  from skip clean ret quiet others removal show ?thesis
    by blast
qed

text \<open>
  The example archive on the host where \<^verbatim>\<open>Game.exe\<close> cannot be created: the other
  two files are written with their bytes, nothing is started, and what the search
  finds is deleted.
\<close>

theorem unopened_target_skipped_example:
  "l_self (picky_loader_env example_archive) =
     Some (archive_layout example_body example_manifest) \<and>
   length (archive_layout example_body example_manifest) < 2 ^ 31 \<and>
   list_all (\<lambda>e. length (relative_path e) = MAX_PATH) example_manifest \<and>
   l_malloc (picky_loader_env example_archive) (sizeof_ManifestEntry * length example_manifest) \<and>
   length (l_temp_dir (picky_loader_env example_archive)) < MAX_PATH - 1 \<and>
   (\<forall>before. recursive_delete_directory (picky_loader_env example_archive) (Suc (Suc 0))
      (l_temp_dir (picky_loader_env example_archive)) before \<noteq> None) \<and>
   (\<forall>before. list_all (\<lambda>e. is_executable e = 0 \<or>
      \<not> l_fopen_wb (picky_loader_env example_archive) before
          (target (picky_loader_env example_archive) e)) example_manifest) \<and>
   loader (picky_loader_env example_archive) (Suc (Suc 0)) =
     LReturn 1
       [GetTempFileNameA (''C:'' @ [BACKSLASH] @ ''T'' @ [BACKSLASH] @ ''d2e1.tmp''),
        DeleteFileA (''C:'' @ [BACKSLASH] @ ''T'' @ [BACKSLASH] @ ''d2e1.tmp''),
        CreateDirectoryA (''C:'' @ [BACKSLASH] @ ''T'' @ [BACKSLASH] @ ''d2e1.tmp''),
        CreateDirectoryA (''C:'' @ [BACKSLASH] @ ''T'' @ [BACKSLASH] @ ''d2e1.tmp'' @
                          [BACKSLASH] @ ''Content''),
        WriteFile (''C:'' @ [BACKSLASH] @ ''T'' @ [BACKSLASH] @ ''d2e1.tmp'' @
                   [BACKSLASH] @ ''Content'' @ [BACKSLASH] @ ''readme.txt'')
          (map byte_of_char ''hello''),
        WriteFile (''C:'' @ [BACKSLASH] @ ''T'' @ [BACKSLASH] @ ''d2e1.tmp'' @
                   [BACKSLASH] @ ''a.txt'') [0x41],
        DeleteFileA (''C:'' @ [BACKSLASH] @ ''T'' @ [BACKSLASH] @ ''d2e1.tmp'' @
                     [BACKSLASH] @ ''a.txt''),
        DeleteFileA (''C:'' @ [BACKSLASH] @ ''T'' @ [BACKSLASH] @ ''d2e1.tmp'' @
                     [BACKSLASH] @ ''Content'' @ [BACKSLASH] @ ''readme.txt''),
        RemoveDirectoryA (''C:'' @ [BACKSLASH] @ ''T'' @ [BACKSLASH] @ ''d2e1.tmp'' @
                          [BACKSLASH] @ ''Content''),
        RemoveDirectoryA (''C:'' @ [BACKSLASH] @ ''T'' @ [BACKSLASH] @ ''d2e1.tmp'')]"
proof -
  let ?P = "picky_loader_env example_archive"
  let ?A = "archive_layout example_body example_manifest"
  let ?T = "''C:'' @ [BACKSLASH] @ ''T'' @ [BACKSLASH] @ ''d2e1.tmp''"
  let ?g = "\<lparr> offset = 9, size_bytes = 2, is_executable = 1,
        relative_path = char_array ''Game.exe'' \<rparr>"
  let ?r = "\<lparr> offset = 4, size_bytes = 5, is_executable = 0,
        relative_path = char_array (''Content'' @ [BACKSLASH] @ ''readme.txt'') \<rparr>"
  let ?a = "\<lparr> offset = 3, size_bytes = 1, is_executable = 0,
        relative_path = char_array ''a.txt'' \<rparr>"
  let ?st = "extract_all ?P ?A example_manifest
           (length example_body + 8 + sizeof_ManifestEntry * length example_manifest)"
  have h1: "l_self ?P = Some ?A"
    by (simp add: example_archive_def)
  have h2: "length ?A < 2 ^ 31"
    using example_archive_small by (simp add: example_archive_def)
  have h3: "list_all (\<lambda>e. length (relative_path e) = MAX_PATH) example_manifest"
    using example_manifest_lengths by (simp add: list_all_iff)
  have h4: "l_malloc ?P (sizeof_ManifestEntry * length example_manifest)"
    by simp
  have h5: "length (l_temp_dir ?P) < MAX_PATH - 1"
    by (simp add: MAX_PATH_def)
  have h6: "\<forall>before. recursive_delete_directory ?P (Suc (Suc 0)) (l_temp_dir ?P) before \<noteq> None"
    by (simp only: picky_env_fields picky_cleanup) simp
  note targets = example_targets [OF picky_env_fields(2), simplified]
  have h7: "\<forall>before. list_all (\<lambda>e. is_executable e = 0 \<or>
      \<not> l_fopen_wb ?P before (target ?P e)) example_manifest"
    by (simp add: example_manifest_def targets)
  from unopened_target_skipped [OF h1 h2 h3 h4 h5 h6 h7 refl] obtain removed after where
    clean: "recursive_delete_directory ?P (Suc (Suc 0)) (l_temp_dir ?P) (calls ?st) =
            Some (removed, after)"
    and ret: "loader ?P (Suc (Suc 0)) = LReturn 1 after"
    by blast
  have prepared:
    "prepared_path ?P ?g = ([], ?T @ [BACKSLASH] @ ''Game.exe'')"
    "prepared_path ?P ?r =
       ([CreateDirectoryA (?T @ [BACKSLASH] @ ''Content'')],
        ?T @ [BACKSLASH] @ ''Content'' @ [BACKSLASH] @ ''readme.txt'')"
    "prepared_path ?P ?a = ([], ?T @ [BACKSLASH] @ ''a.txt'')"
    by (simp_all add: prepared_path_def snprintf_def MAX_PATH_def)
  have stored: "stored (archive_layout example_body entries) ?r = map byte_of_char ''hello''"
    "stored (archive_layout example_body entries) ?a = [0x41]" for entries
    by (simp_all add: stored_def archive_layout_def example_body_def)
  have bounds: "in_bounds (archive_layout example_body entries) ?r"
    "in_bounds (archive_layout example_body entries) ?a" for entries
    by (simp_all add: in_bounds_def archive_layout_def example_body_def)
  define st0 where "st0 = \<lparr> position = length example_body + 8 +
               sizeof_ManifestEntry * length example_manifest,
             buffer = l_heap_buffer ?P,
             calls = [GetTempFileNameA (l_temp_dir ?P), DeleteFileA (l_temp_dir ?P),
                      CreateDirectoryA (l_temp_dir ?P)],
             main_exe_path = [] \<rparr>"
  have st: "?st = fold (extract_entry ?P ?A) [?r, ?a] (extract_entry ?P ?A ?g st0)"
    by (simp add: extract_all_def Let_def example_manifest_def st0_def)
  have refused: "\<not> l_fopen_wb ?P (calls st0 @ fst (prepared_path ?P ?g)) (target ?P ?g)"
    by (simp add: targets)
  have first: "calls (extract_entry ?P ?A ?g st0) = calls st0"
    by (simp add: extract_entry_skipped [OF refused] prepared)
  have rest: "calls (fold (extract_entry ?P ?A) [?r, ?a] (extract_entry ?P ?A ?g st0)) =
        calls (extract_entry ?P ?A ?g st0) @
        concat (map (\<lambda>e. fst (prepared_path ?P e) @
                           [WriteFile (target ?P e) (stored ?A e)]) [?r, ?a])"
  proof (rule extract_fold_in_bounds)
    show "\<forall>before. list_all (\<lambda>e. l_fopen_wb ?P before (target ?P e)) [?r, ?a]"
      by (simp add: targets)
    show "list_all (in_bounds ?A) [?r, ?a]"
      by (simp add: bounds [simplified])
  qed
  have written: "calls ?st =
       [GetTempFileNameA ?T, DeleteFileA ?T, CreateDirectoryA ?T,
        CreateDirectoryA (?T @ [BACKSLASH] @ ''Content''),
        WriteFile (?T @ [BACKSLASH] @ ''Content'' @ [BACKSLASH] @ ''readme.txt'')
          (map byte_of_char ''hello''),
        WriteFile (?T @ [BACKSLASH] @ ''a.txt'') [0x41]]"
    by (simp only: st rest first)
       (simp only: st0_def extract_state.simps list.map concat.simps prepared stored
          target_def fst_conv snd_conv picky_env_fields, simp)
  from clean have "after = calls ?st @
       [DeleteFileA (?T @ [BACKSLASH] @ ''a.txt''),
        DeleteFileA (?T @ [BACKSLASH] @ ''Content'' @ [BACKSLASH] @ ''readme.txt''),
        RemoveDirectoryA (?T @ [BACKSLASH] @ ''Content''),
        RemoveDirectoryA ?T]"
    by (simp only: picky_env_fields picky_cleanup) simp
  then have "after =
       [GetTempFileNameA ?T, DeleteFileA ?T, CreateDirectoryA ?T,
        CreateDirectoryA (?T @ [BACKSLASH] @ ''Content''),
        WriteFile (?T @ [BACKSLASH] @ ''Content'' @ [BACKSLASH] @ ''readme.txt'')
          (map byte_of_char ''hello''),
        WriteFile (?T @ [BACKSLASH] @ ''a.txt'') [0x41],
        DeleteFileA (?T @ [BACKSLASH] @ ''a.txt''),
        DeleteFileA (?T @ [BACKSLASH] @ ''Content'' @ [BACKSLASH] @ ''readme.txt''),
        RemoveDirectoryA (?T @ [BACKSLASH] @ ''Content''),
        RemoveDirectoryA ?T]"
    by (simp only: written) simp
  with ret have "loader (picky_loader_env example_archive) (Suc (Suc 0)) =
     LReturn 1
       [GetTempFileNameA (''C:'' @ [BACKSLASH] @ ''T'' @ [BACKSLASH] @ ''d2e1.tmp''),
        DeleteFileA (''C:'' @ [BACKSLASH] @ ''T'' @ [BACKSLASH] @ ''d2e1.tmp''),
        CreateDirectoryA (''C:'' @ [BACKSLASH] @ ''T'' @ [BACKSLASH] @ ''d2e1.tmp''),
        CreateDirectoryA (''C:'' @ [BACKSLASH] @ ''T'' @ [BACKSLASH] @ ''d2e1.tmp'' @
                          [BACKSLASH] @ ''Content''),
        WriteFile (''C:'' @ [BACKSLASH] @ ''T'' @ [BACKSLASH] @ ''d2e1.tmp'' @
                   [BACKSLASH] @ ''Content'' @ [BACKSLASH] @ ''readme.txt'')
          (map byte_of_char ''hello''),
        WriteFile (''C:'' @ [BACKSLASH] @ ''T'' @ [BACKSLASH] @ ''d2e1.tmp'' @
                   [BACKSLASH] @ ''a.txt'') [0x41],
        DeleteFileA (''C:'' @ [BACKSLASH] @ ''T'' @ [BACKSLASH] @ ''d2e1.tmp'' @
                     [BACKSLASH] @ ''a.txt''),
        DeleteFileA (''C:'' @ [BACKSLASH] @ ''T'' @ [BACKSLASH] @ ''d2e1.tmp'' @
                     [BACKSLASH] @ ''Content'' @ [BACKSLASH] @ ''readme.txt''),
        RemoveDirectoryA (''C:'' @ [BACKSLASH] @ ''T'' @ [BACKSLASH] @ ''d2e1.tmp'' @
                          [BACKSLASH] @ ''Content''),
        RemoveDirectoryA (''C:'' @ [BACKSLASH] @ ''T'' @ [BACKSLASH] @ ''d2e1.tmp'')]"
    by (simp only: append_assoc)
  with h1 h2 h3 h4 h5 h6 h7 show ?thesis
    by (intro conjI)
qed

section \<open>Paths and ranges the loader takes from the manifest\<close>

text \<open>
  Claim C2, as the code has it. The loader neither rejects nor changes the path of
  an entry. For an archive laid out as the packer lays it out, every entry is
  written at the temporary directory's name, a backslash and the entry's path as
  \<^verbatim>\<open>snprintf\<close> puts them together (at most \<open>MAX_PATH - 1\<close> characters), with
  every slash behind the directory's name turned into a backslash, whenever a file
  can be created at that path.
\<close>

theorem entries_written_where_named:
  assumes "l_self env = Some (archive_layout body entries)"
    and "length (archive_layout body entries) < 2 ^ 31"
    and "list_all (\<lambda>e. length (relative_path e) = MAX_PATH) entries"
    and "l_malloc env (sizeof_ManifestEntry * length entries)"
    and "length (l_temp_dir env) < MAX_PATH - 1"
    and "e \<in> set entries"
    and "out_path = snprintf (l_temp_dir env @ [BACKSLASH] @ entry_name e)"
    and "path = take (length (l_temp_dir env) + 1) out_path @
                map (\<lambda>c. if c = SLASH then BACKSLASH else c)
                  (drop (length (l_temp_dir env) + 1) out_path)"
    and "\<forall>before. l_fopen_wb env before path"
  shows "path \<in> set (write_paths (calls_of (loader env stack)))"
proof -
  have lens: "\<forall>e \<in> set entries. length (relative_path e) = MAX_PATH"
    using assms(3) by (simp add: list_all_iff)
  let ?st = "extract_all env (archive_layout body entries) entries
                (length body + 8 + sizeof_ManifestEntry * length entries)"
  have run: "loader env stack = launch_and_clean_up env stack ?st"
    using assms(1,2) lens assms(4,5) by (rule loader_on_layout)
  have path: "path = target env e"
    by (simp add: assms(7,8) target_eq Let_def entry_name_def)
  then have "\<forall>before. l_fopen_wb env before (target env e)"
    using assms(9) by simp
  from extract_fold_writes [OF assms(6) this]
  have "target env e \<in> set (write_paths (calls ?st))"
    by (simp add: extract_all_def Let_def)
  moreover obtain made where "calls_of (launch_and_clean_up env stack ?st) = calls ?st @ made"
    using launch_calls by blast
  ultimately show ?thesis
    by (simp add: run path)
qed

text \<open>An archive whose only entry has the path \<^verbatim>\<open>..\..\evil.exe\<close>.\<close>

theorem entries_written_where_named_example:
  "l_self (quiet_loader_env escaping_archive) =
     Some (archive_layout [0x4D, 0x5A, 0x90, 0x58]
       [\<lparr> offset = 3, size_bytes = 1, is_executable = 0,
          relative_path = char_array (''..'' @ [BACKSLASH] @ ''..'' @ [BACKSLASH] @ ''evil.exe'') \<rparr>]) \<and>
   length (archive_layout [0x4D, 0x5A, 0x90, 0x58]
       [\<lparr> offset = 3, size_bytes = 1, is_executable = 0,
          relative_path = char_array (''..'' @ [BACKSLASH] @ ''..'' @ [BACKSLASH] @ ''evil.exe'') \<rparr>])
     < 2 ^ 31 \<and>
   list_all (\<lambda>e. length (relative_path e) = MAX_PATH)
     [\<lparr> offset = 3, size_bytes = 1, is_executable = 0,
        relative_path = char_array (''..'' @ [BACKSLASH] @ ''..'' @ [BACKSLASH] @ ''evil.exe'') \<rparr>] \<and>
   l_malloc (quiet_loader_env escaping_archive) (sizeof_ManifestEntry * 1) \<and>
   length (l_temp_dir (quiet_loader_env escaping_archive)) < MAX_PATH - 1 \<and>
   (\<forall>before. l_fopen_wb (quiet_loader_env escaping_archive) before
      (''C:'' @ [BACKSLASH] @ ''T'' @ [BACKSLASH] @ ''d2e1.tmp'' @
       [BACKSLASH] @ ''..'' @ [BACKSLASH] @ ''..'' @ [BACKSLASH] @ ''evil.exe'')) \<and>
   (''C:'' @ [BACKSLASH] @ ''T'' @ [BACKSLASH] @ ''d2e1.tmp'' @
       [BACKSLASH] @ ''..'' @ [BACKSLASH] @ ''..'' @ [BACKSLASH] @ ''evil.exe'')
     \<in> set (write_paths (calls_of (loader (quiet_loader_env escaping_archive) (Suc 0))))"
proof -
  let ?Q = "quiet_loader_env escaping_archive"
  let ?e = "\<lparr> offset = 3, size_bytes = 1, is_executable = 0,
          relative_path = char_array (''..'' @ [BACKSLASH] @ ''..'' @ [BACKSLASH] @ ''evil.exe'') \<rparr>"
  let ?p = "''C:'' @ [BACKSLASH] @ ''T'' @ [BACKSLASH] @ ''d2e1.tmp'' @
       [BACKSLASH] @ ''..'' @ [BACKSLASH] @ ''..'' @ [BACKSLASH] @ ''evil.exe''"
  have h1: "l_self ?Q = Some (archive_layout [0x4D, 0x5A, 0x90, 0x58] [?e])"
    by (simp add: escaping_archive_def)
  have h2: "length (archive_layout [0x4D, 0x5A, 0x90, 0x58] [?e]) < 2 ^ 31"
    by (simp add: archive_layout_def MAX_PATH_def MAGIC_BYTES_def)
  have h3: "list_all (\<lambda>e. length (relative_path e) = MAX_PATH) [?e]"
    by (simp add: MAX_PATH_def)
  have h4: "l_malloc ?Q (sizeof_ManifestEntry * length [?e])"
    by simp
  have h5: "length (l_temp_dir ?Q) < MAX_PATH - 1"
    by (simp add: MAX_PATH_def)
  have h6: "?e \<in> set [?e]"
    by simp
  have h8: "?p = take (length (l_temp_dir ?Q) + 1)
                  (snprintf (l_temp_dir ?Q @ [BACKSLASH] @ entry_name ?e)) @
                map (\<lambda>c. if c = SLASH then BACKSLASH else c)
                  (drop (length (l_temp_dir ?Q) + 1)
                     (snprintf (l_temp_dir ?Q @ [BACKSLASH] @ entry_name ?e)))"
    by (simp add: entry_name_def snprintf_def MAX_PATH_def)
  have h9: "\<forall>before. l_fopen_wb ?Q before ?p"
    by simp
  have "?p \<in> set (write_paths (calls_of (loader ?Q (Suc 0))))"
    using h1 h2 h3 h4 h5 h6 refl h8 h9 by (rule entries_written_where_named)
  moreover have "l_malloc ?Q (sizeof_ManifestEntry * 1)"
    by simp
  ultimately show ?thesis
    using h1 h2 h3 h5 h9 by (intro conjI)
qed

text \<open>
  Claim C2 as stated has every entry with parent-directory segments rejected or
  clamped, so that nothing is created outside the extraction root. On the archive
  with the entry \<^verbatim>\<open>..\..\evil.exe\<close> the loader creates the directories
  \<^verbatim>\<open>C:\T\d2e1.tmp\..\<close> and \<^verbatim>\<open>C:\T\d2e1.tmp\..\..\<close> and writes the
  entry's byte to \<^verbatim>\<open>C:\T\d2e1.tmp\..\..\evil.exe\<close>, which is \<^verbatim>\<open>C:\evil.exe\<close>.
\<close>

theorem parent_segments_not_rejected:
  "loader (quiet_loader_env escaping_archive) (Suc 0) =
     LReturn 1
       [GetTempFileNameA (''C:'' @ [BACKSLASH] @ ''T'' @ [BACKSLASH] @ ''d2e1.tmp''),
        DeleteFileA (''C:'' @ [BACKSLASH] @ ''T'' @ [BACKSLASH] @ ''d2e1.tmp''),
        CreateDirectoryA (''C:'' @ [BACKSLASH] @ ''T'' @ [BACKSLASH] @ ''d2e1.tmp''),
        CreateDirectoryA (''C:'' @ [BACKSLASH] @ ''T'' @ [BACKSLASH] @ ''d2e1.tmp'' @
                          [BACKSLASH] @ ''..''),
        CreateDirectoryA (''C:'' @ [BACKSLASH] @ ''T'' @ [BACKSLASH] @ ''d2e1.tmp'' @
                          [BACKSLASH] @ ''..'' @ [BACKSLASH] @ ''..''),
        WriteFile (''C:'' @ [BACKSLASH] @ ''T'' @ [BACKSLASH] @ ''d2e1.tmp'' @
                   [BACKSLASH] @ ''..'' @ [BACKSLASH] @ ''..'' @ [BACKSLASH] @ ''evil.exe'')
          [0x58]] \<and>
   map entry_name (loader_manifest (quiet_loader_env escaping_archive) escaping_archive) =
     [''..'' @ [BACKSLASH] @ ''..'' @ [BACKSLASH] @ ''evil.exe''] \<and>
   \<not> spec_within_root (''C:'' @ [BACKSLASH] @ ''T'' @ [BACKSLASH] @ ''d2e1.tmp'')
       (''C:'' @ [BACKSLASH] @ ''T'' @ [BACKSLASH] @ ''d2e1.tmp'' @
        [BACKSLASH] @ ''..'' @ [BACKSLASH] @ ''..'' @ [BACKSLASH] @ ''evil.exe'') \<and>
   \<not> spec_within_root (''C:'' @ [BACKSLASH] @ ''T'' @ [BACKSLASH] @ ''d2e1.tmp'')
       (''C:'' @ [BACKSLASH] @ ''T'' @ [BACKSLASH] @ ''d2e1.tmp'' @ [BACKSLASH] @ ''..'')"
proof -
  let ?e = "\<lparr> offset = 3, size_bytes = 1, is_executable = 0,
          relative_path = char_array (''..'' @ [BACKSLASH] @ ''..'' @ [BACKSLASH] @ ''evil.exe'') \<rparr>"
  have small: "length (archive_layout [0x4D, 0x5A, 0x90, 0x58] [?e]) < 2 ^ 31"
    by (simp add: archive_layout_def MAX_PATH_def MAGIC_BYTES_def)
  have lens: "\<forall>e \<in> set [?e]. length (relative_path e) = MAX_PATH"
    by (simp add: MAX_PATH_def)
  have read: "loader_manifest (quiet_loader_env escaping_archive) escaping_archive = [?e]"
    unfolding escaping_archive_def using small lens by (rule loader_manifest_layout)
  have names: "map entry_name (loader_manifest (quiet_loader_env escaping_archive)
                 escaping_archive) =
     [''..'' @ [BACKSLASH] @ ''..'' @ [BACKSLASH] @ ''evil.exe'']"
    by (simp only: read) (simp add: entry_name_def)
  have out1: "\<not> spec_within_root (''C:'' @ [BACKSLASH] @ ''T'' @ [BACKSLASH] @ ''d2e1.tmp'')
       (''C:'' @ [BACKSLASH] @ ''T'' @ [BACKSLASH] @ ''d2e1.tmp'' @
        [BACKSLASH] @ ''..'' @ [BACKSLASH] @ ''..'' @ [BACKSLASH] @ ''evil.exe'')"
    by (simp add: spec_within_root_def spec_resolve_def)
  have out2: "\<not> spec_within_root (''C:'' @ [BACKSLASH] @ ''T'' @ [BACKSLASH] @ ''d2e1.tmp'')
       (''C:'' @ [BACKSLASH] @ ''T'' @ [BACKSLASH] @ ''d2e1.tmp'' @ [BACKSLASH] @ ''..'')"
    by (simp add: spec_within_root_def spec_resolve_def)
  show ?thesis
    using escaping_run names out1 out2 by (intro conjI)
qed

text \<open>
  Claim C4, as the code has it. The loader checks nothing between the comparison of
  the magic field and the extraction: neither the entry count nor any offset or
  size. When the magic field holds the signature and the loader returns, it has
  created the temporary directory, and it returns 1 or the exit code of the child.
\<close>

theorem no_manifest_validation:
  assumes "l_self env = Some src" and "sizeof_ArchiveFooter \<le> length src"
    and "c_str (magic (footer_of_bytes (drop (length src - sizeof_ArchiveFooter) src)))
         = MAGIC_BYTES"
    and "loader env stack = LReturn code after"
  shows "CreateDirectoryA (l_temp_dir env) \<in> set after \<and>
         (code = 1 \<or>
          (\<exists>before application.
             l_create_process env before application (l_cmd_line env) (l_temp_dir env)
               = Exited code))"
proof -
  from loader_after_magic [OF assms] obtain manifest pos where
    "loader env stack = launch_and_clean_up env stack (extract_all env src manifest pos)"
    by blast
  with assms(4) have
    l: "launch_and_clean_up env stack (extract_all env src manifest pos) = LReturn code after"
    by simp
  from launch_returned [OF l] obtain made where
    after: "after = calls (extract_all env src manifest pos) @ made"
    and code: "code = 1 \<or>
          l_create_process env (calls (extract_all env src manifest pos))
            (main_exe_path (extract_all env src manifest pos)) (l_cmd_line env) (l_temp_dir env)
            = Exited code"
    by blast
  from extract_all_calls [of env src manifest pos] after
  have "CreateDirectoryA (l_temp_dir env) \<in> set after"
    by auto
  with code show ?thesis by blast
qed

text \<open>The archive whose entry has its offset behind the end of the file.\<close>

theorem no_manifest_validation_example:
  "l_self (quiet_loader_env stray_archive) = Some stray_archive \<and>
   sizeof_ArchiveFooter \<le> length stray_archive \<and>
   c_str (magic (footer_of_bytes
     (drop (length stray_archive - sizeof_ArchiveFooter) stray_archive))) = MAGIC_BYTES \<and>
   loader (quiet_loader_env stray_archive) (Suc 0) =
     LReturn 1
       [GetTempFileNameA (''C:'' @ [BACKSLASH] @ ''T'' @ [BACKSLASH] @ ''d2e1.tmp''),
        DeleteFileA (''C:'' @ [BACKSLASH] @ ''T'' @ [BACKSLASH] @ ''d2e1.tmp''),
        CreateDirectoryA (''C:'' @ [BACKSLASH] @ ''T'' @ [BACKSLASH] @ ''d2e1.tmp''),
        WriteFile (''C:'' @ [BACKSLASH] @ ''T'' @ [BACKSLASH] @ ''d2e1.tmp'' @
                   [BACKSLASH] @ ''a.txt'')
          [0, 0, 0, 0]] \<and>
   CreateDirectoryA (l_temp_dir (quiet_loader_env stray_archive)) \<in>
     set [GetTempFileNameA (''C:'' @ [BACKSLASH] @ ''T'' @ [BACKSLASH] @ ''d2e1.tmp''),
        DeleteFileA (''C:'' @ [BACKSLASH] @ ''T'' @ [BACKSLASH] @ ''d2e1.tmp''),
        CreateDirectoryA (''C:'' @ [BACKSLASH] @ ''T'' @ [BACKSLASH] @ ''d2e1.tmp''),
        WriteFile (''C:'' @ [BACKSLASH] @ ''T'' @ [BACKSLASH] @ ''d2e1.tmp'' @
                   [BACKSLASH] @ ''a.txt'')
          [0, 0, 0, 0]]"
proof -
  let ?e = "\<lparr> offset = 1000, size_bytes = 4, is_executable = 0,
          relative_path = char_array ''a.txt'' \<rparr>"
  have lens: "\<forall>e \<in> set [?e]. length (relative_path e) = MAX_PATH"
    by (simp add: MAX_PATH_def)
  have h1: "l_self (quiet_loader_env stray_archive) = Some stray_archive"
    by simp
  have h2: "sizeof_ArchiveFooter \<le> length stray_archive"
    unfolding stray_archive_def using lens by (rule footer_of_layout(1))
  have h3: "c_str (magic (footer_of_bytes
     (drop (length stray_archive - sizeof_ArchiveFooter) stray_archive))) = MAGIC_BYTES"
    unfolding stray_archive_def by (simp only: footer_of_layout(2) [OF lens]) simp
  show ?thesis
    using no_manifest_validation [OF h1 h2 h3 stray_run] h1 h2 h3 stray_run
    by (intro conjI) simp_all
qed

text \<open>
  Claim C4 as stated has an entry whose offset and size do not lie within the file
  treated as an invalid signature, exit code 2. The file of 304 bytes whose entry
  has offset 1000 and size 4 is extracted: the reads behind the end of the file
  return nothing, the four bytes written are what the buffer held, and the loader
  returns 1 because no entry is flagged.
\<close>

theorem out_of_bounds_entry_extracted:
  "loader (quiet_loader_env stray_archive) (Suc 0) =
     LReturn 1
       [GetTempFileNameA (''C:'' @ [BACKSLASH] @ ''T'' @ [BACKSLASH] @ ''d2e1.tmp''),
        DeleteFileA (''C:'' @ [BACKSLASH] @ ''T'' @ [BACKSLASH] @ ''d2e1.tmp''),
        CreateDirectoryA (''C:'' @ [BACKSLASH] @ ''T'' @ [BACKSLASH] @ ''d2e1.tmp''),
        WriteFile (''C:'' @ [BACKSLASH] @ ''T'' @ [BACKSLASH] @ ''d2e1.tmp'' @
                   [BACKSLASH] @ ''a.txt'')
          [0, 0, 0, 0]] \<and>
   loader_manifest (quiet_loader_env stray_archive) stray_archive =
     [\<lparr> offset = 1000, size_bytes = 4, is_executable = 0,
        relative_path = char_array ''a.txt'' \<rparr>] \<and>
   length stray_archive = 304 \<and>
   length stray_archive <
     unat (offset (hd (loader_manifest (quiet_loader_env stray_archive) stray_archive)))"
proof -
  let ?e = "\<lparr> offset = 1000, size_bytes = 4, is_executable = 0,
          relative_path = char_array ''a.txt'' \<rparr>"
  have len: "length (archive_layout [0x4D, 0x5A, 0x90] [?e]) = 304"
    by (simp add: archive_layout_def MAX_PATH_def MAGIC_BYTES_def)
  have small: "length (archive_layout [0x4D, 0x5A, 0x90] [?e]) < 2 ^ 31"
    by (simp only: len) simp
  have lens: "\<forall>e \<in> set [?e]. length (relative_path e) = MAX_PATH"
    by (simp add: MAX_PATH_def)
  have read: "loader_manifest (quiet_loader_env stray_archive) stray_archive = [?e]"
    unfolding stray_archive_def using small lens by (rule loader_manifest_layout)
  have l: "length stray_archive = 304"
    by (simp only: stray_archive_def len)
  have beyond: "length stray_archive <
     unat (offset (hd (loader_manifest (quiet_loader_env stray_archive) stray_archive)))"
    by (simp only: read l) simp
  show ?thesis
    using stray_run read l beyond by (intro conjI)
qed

section \<open>Packing and extracting again\<close>

text \<open>
  Claim C1, as the code has it. Let the packer return 0, let \<open>fs\<close> be the files that
  its walk reached, and let the loader run on the archive it wrote. Take a file of
  \<open>fs\<close> whose full path, as the packer puts it together, has fewer than
  \<open>MAX_PATH - 1\<close> characters, so that \<^verbatim>\<open>snprintf\<close> has not cut it: the path opened is
  the packed directory, a backslash (two at the top level) and the relative path.
  The last bytes that the loader writes to the temporary directory's name, a
  backslash and the file's relative path are the bytes of the file when the packer
  could open it, and none when it could not. The conditions are those of a
  directory listing (the relative paths are distinct and hold neither NUL nor a
  slash), that the archive has fewer than \<open>2\<^sup>3\<^sup>1\<close> bytes, that every joined path
  has fewer than \<open>MAX_PATH\<close> characters, and that the loader gets memory for the
  manifest and can create the file.
\<close>

theorem extracted_bytes_are_packed_bytes:
  assumes run: "packer env stack argv = PExit 0 (Some packed) printed"
    and walk: "walk_files env stack (argv ! 1) [] = Some fs"
    and F: "(relative, path) \<in> set fs"
    and uncut: "length path < MAX_PATH - 1"
    and small: "length packed < 2 ^ 31"
    and distinct: "distinct (map fst fs)"
    and nul: "NUL \<notin> set (concat (map fst fs))"
    and slash: "SLASH \<notin> set (concat (map fst fs))"
    and fit: "list_all (\<lambda>rf. length (l_temp_dir lenv) + 1 + length (fst rf) < MAX_PATH) fs"
    and self: "l_self lenv = Some packed"
    and mem: "l_malloc lenv (sizeof_ManifestEntry * Suc (length fs))"
    and creat: "\<forall>before. l_fopen_wb lenv before (l_temp_dir lenv @ [BACKSLASH] @ relative)"
  shows "written (calls_of (loader lenv lstack)) (l_temp_dir lenv @ [BACKSLASH] @ relative) =
           Some (case fopen_rb env path of None \<Rightarrow> [] | Some content \<Rightarrow> content) \<and>
         (path = argv ! 1 @ [BACKSLASH] @ relative \<or>
          path = argv ! 1 @ [BACKSLASH, BACKSLASH] @ relative)"
proof -
  from packer_success [OF run] walk have
    exe: "length (after_last_backslash (argv ! 2)) < MAX_PATH"
    and packed: "packed = archive_layout (packed_body env (argv ! 2) fs)
                       (packed_manifest env (argv ! 2) fs)"
    by auto
  let ?M = "packed_manifest env (argv ! 2) fs"
  let ?B = "packed_body env (argv ! 2) fs"
  from F obtain fs1 fs2 where fs: "fs = fs1 @ (relative, path) # fs2"
    by (auto dest: split_list)
  have short: "\<forall>rf \<in> set fs. length (fst rf) < MAX_PATH"
    using walk by (rule walk_files_short)
  have lens: "\<forall>e \<in> set ?M. length (relative_path e) = MAX_PATH"
    using packed_manifest_path_lengths [OF short exe] by blast
  have count: "length ?M = Suc (length fs)"
    by (simp add: packed_manifest_def)
  have "length (l_temp_dir lenv) + 1 + length relative < MAX_PATH"
    using fit by (simp add: fs)
  then have temp: "length (l_temp_dir lenv) < MAX_PATH - 1"
    by simp
  have small': "length (archive_layout ?B ?M) < 2 ^ 31"
    using small by (simp only: packed)
  have "loader lenv lstack =
         launch_and_clean_up lenv lstack
           (extract_all lenv (archive_layout ?B ?M) ?M
              (length ?B + 8 + sizeof_ManifestEntry * length ?M))"
  proof (rule loader_on_layout)
    show "l_self lenv = Some (archive_layout ?B ?M)"
      using self by (simp only: packed)
    show "l_malloc lenv (sizeof_ManifestEntry * length ?M)"
      using mem by (simp only: count)
  qed (fact small' lens temp)+
  then have "written (calls_of (loader lenv lstack))
               (l_temp_dir lenv @ [BACKSLASH] @ relative) = Some (payload env path)"
    by (simp only: extracted_from_packed [OF fs small' distinct nul slash fit creat])
  then have bytes: "written (calls_of (loader lenv lstack))
               (l_temp_dir lenv @ [BACKSLASH] @ relative) =
           Some (case fopen_rb env path of None \<Rightarrow> [] | Some content \<Rightarrow> content)"
    by (simp only: payload_def)
  from walk_files_uncut(1) [OF walk F uncut]
  have "path = argv ! 1 @ [BACKSLASH] @ relative \<or>
        path = argv ! 1 @ [BACKSLASH, BACKSLASH] @ relative"
    by blast
  with bytes show ?thesis by (rule conjI)
qed

text \<open>The example host and \<^verbatim>\<open>Content\readme.txt\<close>.\<close>

theorem extracted_bytes_are_packed_bytes_example:
  "packer (example_host (\<lambda>p. False)) (Suc (Suc 0)) example_argv =
     PExit 0 (Some example_archive)
       (lines_of_run (example_host (\<lambda>p. False)) example_argv example_files) \<and>
   walk_files (example_host (\<lambda>p. False)) (Suc (Suc 0)) (example_argv ! 1) [] =
     Some example_files \<and>
   (''Content'' @ [BACKSLASH] @ ''readme.txt'',
    ''Dir'' @ [BACKSLASH] @ ''Content'' @ [BACKSLASH] @ ''readme.txt'') \<in> set example_files \<and>
   length (''Dir'' @ [BACKSLASH] @ ''Content'' @ [BACKSLASH] @ ''readme.txt'') < MAX_PATH - 1 \<and>
   length example_archive < 2 ^ 31 \<and>
   distinct (map fst example_files) \<and>
   NUL \<notin> set (concat (map fst example_files)) \<and>
   SLASH \<notin> set (concat (map fst example_files)) \<and>
   list_all (\<lambda>rf. length (l_temp_dir (quiet_loader_env example_archive)) + 1 +
                     length (fst rf) < MAX_PATH) example_files \<and>
   l_self (quiet_loader_env example_archive) = Some example_archive \<and>
   l_malloc (quiet_loader_env example_archive)
     (sizeof_ManifestEntry * Suc (length example_files)) \<and>
   (\<forall>before. l_fopen_wb (quiet_loader_env example_archive) before
      (l_temp_dir (quiet_loader_env example_archive) @ [BACKSLASH] @
       ''Content'' @ [BACKSLASH] @ ''readme.txt'')) \<and>
   fopen_rb (example_host (\<lambda>p. False))
     (''Dir'' @ [BACKSLASH] @ ''Content'' @ [BACKSLASH] @ ''readme.txt'') =
     Some (map byte_of_char ''hello'') \<and>
   written (calls_of (loader (quiet_loader_env example_archive) (Suc 0)))
     (l_temp_dir (quiet_loader_env example_archive) @ [BACKSLASH] @
      ''Content'' @ [BACKSLASH] @ ''readme.txt'') =
     Some (map byte_of_char ''hello'')"
proof -
  let ?Q = "quiet_loader_env example_archive"
  let ?H = "example_host (\<lambda>p. False)"
  let ?r = "''Content'' @ [BACKSLASH] @ ''readme.txt''"
  let ?p = "''Dir'' @ [BACKSLASH] @ ''Content'' @ [BACKSLASH] @ ''readme.txt''"
  have h2: "walk_files ?H (Suc (Suc 0)) (example_argv ! 1) [] = Some example_files"
  proof -
    have "example_argv ! 1 = ''Dir''" by (simp add: example_argv_def)
    then show ?thesis by (simp only: example_walk)
  qed
  have h3: "(?r, ?p) \<in> set example_files"
    by (simp add: example_files_def)
  have h4: "length ?p < MAX_PATH - 1"
    by (simp add: MAX_PATH_def)
  have h6: "distinct (map fst example_files)"
    by (simp add: example_files_def)
  have h7: "NUL \<notin> set (concat (map fst example_files))"
    by (simp add: example_files_def)
  have h8: "SLASH \<notin> set (concat (map fst example_files))"
    by (simp add: example_files_def)
  have h9: "list_all (\<lambda>rf. length (l_temp_dir ?Q) + 1 + length (fst rf) < MAX_PATH)
              example_files"
    by (simp add: example_files_def MAX_PATH_def)
  have h10: "l_self ?Q = Some example_archive"
    by simp
  have h11: "l_malloc ?Q (sizeof_ManifestEntry * Suc (length example_files))"
    by simp
  have h12: "\<forall>before. l_fopen_wb ?Q before (l_temp_dir ?Q @ [BACKSLASH] @ ?r)"
    by simp
  have opened: "fopen_rb ?H ?p = Some (map byte_of_char ''hello'')"
    by (simp add: fopen_rb_def example_host_def)
  have "written (calls_of (loader ?Q (Suc 0))) (l_temp_dir ?Q @ [BACKSLASH] @ ?r) =
        Some (case fopen_rb ?H ?p of None \<Rightarrow> [] | Some content \<Rightarrow> content)"
    using extracted_bytes_are_packed_bytes
      [OF example_run h2 h3 h4 example_archive_small h6 h7 h8 h9 h10 h11 h12]
    by (rule conjunct1)
  then have "written (calls_of (loader ?Q (Suc 0))) (l_temp_dir ?Q @ [BACKSLASH] @ ?r) =
        Some (map byte_of_char ''hello'')"
    by (simp only: opened option.case)
  with example_run h2 h3 h4 example_archive_small h6 h7 h8 h9 h10 h11 h12 opened
  show ?thesis by (intro conjI)
qed

text \<open>
  Claim C1 as stated covers every file under the packed directory. On the example
  host with \<^verbatim>\<open>readme.txt\<close> locked, the file holds \<^verbatim>\<open>hello\<close>, the packer records
  an entry of size 0 for it, and the loader writes an empty file to
  \<^verbatim>\<open>C:\T\d2e1.tmp\Content\readme.txt\<close>.
\<close>

theorem unopened_file_extracted_empty:
  "packer (example_host readme_locked) (Suc (Suc 0)) example_argv =
     PExit 0 (Some locked_archive)
       (lines_of_run (example_host readme_locked) example_argv example_files) \<and>
   walk_files (example_host readme_locked) (Suc (Suc 0)) (example_argv ! 1) [] =
     Some example_files \<and>
   (''Content'' @ [BACKSLASH] @ ''readme.txt'',
    ''Dir'' @ [BACKSLASH] @ ''Content'' @ [BACKSLASH] @ ''readme.txt'') \<in> set example_files \<and>
   p_files (example_host readme_locked)
     (''Dir'' @ [BACKSLASH] @ ''Content'' @ [BACKSLASH] @ ''readme.txt'') =
     Some (map byte_of_char ''hello'') \<and>
   written (calls_of (loader (quiet_loader_env locked_archive) (Suc 0)))
     (''C:'' @ [BACKSLASH] @ ''T'' @ [BACKSLASH] @ ''d2e1.tmp'' @ [BACKSLASH] @
      ''Content'' @ [BACKSLASH] @ ''readme.txt'') = Some []"
proof -
  let ?Q = "quiet_loader_env locked_archive"
  let ?H = "example_host readme_locked"
  let ?r = "''Content'' @ [BACKSLASH] @ ''readme.txt''"
  let ?p = "''Dir'' @ [BACKSLASH] @ ''Content'' @ [BACKSLASH] @ ''readme.txt''"
  let ?T = "''C:'' @ [BACKSLASH] @ ''T'' @ [BACKSLASH] @ ''d2e1.tmp'' @ [BACKSLASH] @
      ''Content'' @ [BACKSLASH] @ ''readme.txt''"
  let ?game = "\<lparr> offset = 4, size_bytes = 2, is_executable = 1,
        relative_path = char_array ''Game.exe'' \<rparr>"
  let ?readme = "\<lparr> offset = 0, size_bytes = 0, is_executable = 0,
        relative_path = char_array (''Content'' @ [BACKSLASH] @ ''readme.txt'') \<rparr>"
  let ?a = "\<lparr> offset = 3, size_bytes = 1, is_executable = 0,
        relative_path = char_array ''a.txt'' \<rparr>"
  have h2: "walk_files ?H (Suc (Suc 0)) (example_argv ! 1) [] = Some example_files"
  proof -
    have "example_argv ! 1 = ''Dir''" by (simp add: example_argv_def)
    then show ?thesis by (simp only: example_walk)
  qed
  have h3: "(?r, ?p) \<in> set example_files"
    by (simp add: example_files_def)
  have h4: "p_files ?H ?p = Some (map byte_of_char ''hello'')"
    by (simp add: example_host_def)
  have manifest: "locked_manifest = [?game] @ ?readme # [?a]"
    by (simp add: locked_manifest_def)
  have lens: "\<forall>e \<in> set locked_manifest. length (relative_path e) = MAX_PATH"
    by (simp add: locked_manifest_def MAX_PATH_def)
  have run: "loader ?Q (Suc 0) =
         launch_and_clean_up ?Q (Suc 0)
           (extract_all ?Q locked_archive locked_manifest
              (length locked_body + 8 + sizeof_ManifestEntry * length locked_manifest))"
    unfolding locked_archive_def
  proof (rule loader_on_layout)
    show "length (archive_layout locked_body locked_manifest) < 2 ^ 31"
      using locked_archive_small by (simp only: locked_archive_def)
  qed (simp_all add: lens locked_archive_def MAX_PATH_def)
  note targets = example_targets [OF quiet_env_fields(2), simplified]
  have t: "target ?Q ?readme = ?T"
    by (simp add: targets)
  have "written (calls_of (launch_and_clean_up ?Q (Suc 0)
           (extract_all ?Q locked_archive ([?game] @ ?readme # [?a]) pos)))
           (target ?Q ?readme) = Some (stored locked_archive ?readme)" for pos
  proof (rule extracted_entry)
    show "\<forall>before. l_fopen_wb ?Q before (target ?Q ?readme)" by simp
    show "in_bounds locked_archive ?readme" by (simp add: in_bounds_def)
    show "target ?Q ?readme \<notin> target ?Q ` set [?a]" by (simp add: targets)
  qed
  then have h5: "written (calls_of (loader ?Q (Suc 0))) ?T = Some []"
    by (simp only: run manifest [symmetric] t) (simp add: stored_def)
  from locked_run h2 h3 h4 h5 show ?thesis
    by (intro conjI)
qed

section \<open>The path of the flagged entry\<close>

text \<open>
  Claim C5 on the example host with the main executable named \<^verbatim>\<open>Bin/Game.exe\<close>.
  One entry of the archive is flagged, as the claim has it, but its path is not the
  base file name \<^verbatim>\<open>Game.exe\<close>: \<^verbatim>\<open>strrchr\<close> looks for a backslash only, so the path
  keeps the directory \<^verbatim>\<open>Bin\<close>. The loader, which takes a slash for a separator as
  well as a backslash, creates that directory for the entry and opens
  \<^verbatim>\<open>Bin\Game.exe\<close> in it.
\<close>

theorem slash_kept_in_flagged_path:
  "packer slash_host (Suc (Suc 0)) slash_argv =
     PExit 0 (Some slash_archive) (lines_of_run slash_host slash_argv example_files) \<and>
   map entry_name
     (filter (\<lambda>e. is_executable e \<noteq> 0)
        (loader_manifest (quiet_loader_env slash_archive) slash_archive)) =
     [''Bin/Game.exe''] \<and>
   prepared_path (quiet_loader_env slash_archive)
     (hd (loader_manifest (quiet_loader_env slash_archive) slash_archive)) =
     ([CreateDirectoryA (''C:'' @ [BACKSLASH] @ ''T'' @ [BACKSLASH] @ ''d2e1.tmp'' @
                          [BACKSLASH] @ ''Bin'')],
      ''C:'' @ [BACKSLASH] @ ''T'' @ [BACKSLASH] @ ''d2e1.tmp'' @
        [BACKSLASH] @ ''Bin'' @ [BACKSLASH] @ ''Game.exe'')"
proof -
  have small: "length (archive_layout example_body slash_manifest) < 2 ^ 31"
    by (simp add: archive_layout_def example_body_def slash_manifest_def
        MAX_PATH_def MAGIC_BYTES_def)
  have lens: "\<forall>e \<in> set slash_manifest. length (relative_path e) = MAX_PATH"
    by (simp add: slash_manifest_def MAX_PATH_def)
  have read: "loader_manifest (quiet_loader_env slash_archive) slash_archive = slash_manifest"
    unfolding slash_archive_def using small lens by (rule loader_manifest_layout)
  have flagged: "map entry_name
     (filter (\<lambda>e. is_executable e \<noteq> 0)
        (loader_manifest (quiet_loader_env slash_archive) slash_archive)) =
     [''Bin/Game.exe'']"
    by (simp only: read) (simp add: slash_manifest_def entry_name_def)
  have prepared: "prepared_path (quiet_loader_env slash_archive)
     (hd (loader_manifest (quiet_loader_env slash_archive) slash_archive)) =
     ([CreateDirectoryA (''C:'' @ [BACKSLASH] @ ''T'' @ [BACKSLASH] @ ''d2e1.tmp'' @
                          [BACKSLASH] @ ''Bin'')],
      ''C:'' @ [BACKSLASH] @ ''T'' @ [BACKSLASH] @ ''d2e1.tmp'' @
        [BACKSLASH] @ ''Bin'' @ [BACKSLASH] @ ''Game.exe'')"
    by (simp only: read)
       (simp add: slash_manifest_def prepared_path_def snprintf_def MAX_PATH_def)
  from slash_run flagged prepared show ?thesis
    by (intro conjI)
qed

end
